theory Spec2Isabelle
  imports Complex_Main "HOL-Library.Word"
begin

section \<open>Fuzzy Sync (\<open>src/include/fuzzy_sync.h\<close>)\<close>

text \<open>
  A shallow embedding of the header. Conventions:
  \<^item> a C \<open>int\<close> is a \<open>32 word\<close>; \<open>+\<close> and \<open>-\<close> wrap around, comparisons are the signed
    ones (\<open><s\<close>, \<open>\<le>s\<close>). Signed overflow is undefined in C; the model takes the
    two's-complement result the usual targets produce;
  \<^item> a C \<open>long\<close> and a \<open>time_t\<close> are \<open>int\<close> (64-bit values; the functions translated
    here stay far from their bounds);
  \<^item> a C \<open>float\<close> or \<open>double\<close> is a \<open>real\<close>. The statistic update
    (\<open>fzsync_exp_moving_avg\<close>, \<open>fzsync_upd_stat\<close>) rounds as IEEE-754 does: every operation
    is done in the type of its operands (\<open>float\<close> is binary32, \<open>double\<close> binary64, no
    excess precision) and its result is rounded to nearest, ties to even, subnormal values
    included; overflow to infinity and NaN are not modelled. The other floating
    computations (the configuration checks, the delay range, the time budget) are
    translated as written over the reals. \<open>FLT_MIN\<close> and \<open>FLT_MAX\<close> are the IEEE-754
    binary32 values of \<open>float.h\<close>;
  \<^item> a \<open>pthread_t\<close> is a \<open>nat\<close>, 0 meaning "no thread";
  \<^item> what a call reads from outside the pair (the clock, \<open>drand48\<close>, the status of a
    pthread call, what thread B wrote in the meantime) is an argument of the function;
  \<^item> a failing \<open>assert\<close> is an \<open>Inl\<close> result; \<open>fzsync_printf\<close> calls are returned as a
    list of messages (by kind, without their formatted numbers).
\<close>

type_synonym c_int = "32 word"

definition INT_MAX :: c_int where
  "INT_MAX = 0x7FFFFFFF"

definition FLT_MIN :: real where
  "FLT_MIN = 1 / 2 ^ 126"

definition FLT_MAX :: real where
  "FLT_MAX = (2 ^ 24 - 1) * 2 ^ 104"

text \<open>Conversion of a floating value to an integer type: C truncates towards zero.\<close>

definition c_trunc :: "real \<Rightarrow> int" where
  "c_trunc x = (if 0 \<le> x then \<lfloor>x\<rfloor> else \<lceil>x\<rceil>)"

subsection \<open>Floating-point rounding\<close>

text \<open>
  Rounding to the nearest integer, ties to the even one.
\<close>

definition round_even :: "real \<Rightarrow> int" where
  "round_even x =
     (let n = \<lfloor>x\<rfloor>; f = x - of_int n
      in if f < 1 / 2 then n else if 1 / 2 < f then n + 1 else if even n then n else n + 1)"

text \<open>
  \<open>fp_round p emin x\<close> is the value nearest to \<open>x\<close> in the binary format of precision \<open>p\<close>
  (bits of the significand) whose least normal exponent is \<open>emin\<close>, ties to the even
  significand. \<open>fp_unit p emin x\<close> is the distance between neighbouring values of the
  format at the magnitude of \<open>x\<close>; from \<open>2 ^ emin\<close> downwards it is constant (subnormal
  values). The format has no largest exponent here.
\<close>

definition fp_unit :: "nat \<Rightarrow> int \<Rightarrow> real \<Rightarrow> real" where
  "fp_unit p emin x = 2 powi (max emin \<lfloor>log 2 \<bar>x\<bar>\<rfloor> - int p + 1)"

definition fp_round :: "nat \<Rightarrow> int \<Rightarrow> real \<Rightarrow> real" where
  "fp_round p emin x =
     (if x = 0 then 0
      else fp_unit p emin x * of_int (round_even (x / fp_unit p emin x)))"

text \<open>The conversions to \<open>float\<close> (binary32) and to \<open>double\<close> (binary64).\<close>

definition to_float :: "real \<Rightarrow> real" where
  "to_float = fp_round 24 (- 126)"

definition to_double :: "real \<Rightarrow> real" where
  "to_double = fp_round 53 (- 1022)"

subsection \<open>Data\<close>

record timespec =
  tv_sec :: int
  tv_nsec :: int

record fzsync_stat =
  avg :: real
  avg_dev :: real
  dev_ratio :: real

record fzsync_pair =
  avg_alpha :: real
  a_start :: timespec
  b_start :: timespec
  a_end :: timespec
  b_end :: timespec
  diff_ss :: fzsync_stat
  diff_sa :: fzsync_stat
  diff_sb :: fzsync_stat
  diff_ab :: fzsync_stat
  spins :: c_int
  spins_avg :: fzsync_stat
  delay :: c_int
  delay_bias :: c_int
  sampling :: c_int
  min_samples :: c_int
  max_dev_ratio :: real
  a_cntr :: c_int
  b_cntr :: c_int
  exit :: c_int
  exec_time :: real
  exec_time_start :: timespec
  exec_loops :: c_int
  exec_loop :: c_int
  thread_b :: nat

subsection \<open>Sample statistics\<close>

definition fzsync_init_stat :: "fzsync_stat \<Rightarrow> fzsync_stat" where
  "fzsync_init_stat s = s\<lparr>avg := 0, avg_dev := 0\<rparr>"

definition fzsync_diff_ns :: "timespec \<Rightarrow> timespec \<Rightarrow> int" where
  "fzsync_diff_ns t1 t2 =
     (let res = (tv_sec t1 - tv_sec t2) * 1000000000
      in res + (tv_nsec t1 - tv_nsec t2))"

text \<open>
  The parameters of \<open>fzsync_exp_moving_avg\<close> and \<open>fzsync_upd_stat\<close> are \<open>float\<close>s: a call
  converts its arguments (\<open>fzsync_upd_diff_stat\<close> passes a \<open>long\<close>, \<open>fzsync_pair_update\<close> an
  \<open>int\<close>). In \<open>alpha * sample + (1.0 - alpha) * prev_avg\<close> the first product is a \<open>float\<close>
  product; \<open>1.0\<close> is a \<open>double\<close>, so the difference, the second product and the sum are
  \<open>double\<close> operations; the \<open>return\<close> converts the sum to \<open>float\<close>.
\<close>

definition fzsync_exp_moving_avg :: "real \<Rightarrow> real \<Rightarrow> real \<Rightarrow> real" where
  "fzsync_exp_moving_avg alpha sample prev_avg =
     (let alpha = to_float alpha; sample = to_float sample; prev_avg = to_float prev_avg
      in to_float (to_double (to_float (alpha * sample) + to_double (to_double (1 - alpha) * prev_avg))))"

text \<open>
  \<open>s->avg - sample\<close> and \<open>s->avg_dev / s->avg\<close> are \<open>float\<close> operations; \<open>fabs\<close> is exact.
\<close>

definition fzsync_upd_stat :: "fzsync_stat \<Rightarrow> real \<Rightarrow> real \<Rightarrow> fzsync_stat" where
  "fzsync_upd_stat s alpha sample =
     (let alpha = to_float alpha; sample = to_float sample;
          s1 = s\<lparr>avg := fzsync_exp_moving_avg alpha sample (avg s)\<rparr>;
          s2 = s1\<lparr>avg_dev := fzsync_exp_moving_avg alpha \<bar>to_float (avg s1 - sample)\<bar> (avg_dev s1)\<rparr>
      in s2\<lparr>dev_ratio := \<bar>if avg s2 \<noteq> 0 then to_float (avg_dev s2 / avg s2) else 0\<bar>\<rparr>)"

definition fzsync_upd_diff_stat ::
  "fzsync_stat \<Rightarrow> real \<Rightarrow> timespec \<Rightarrow> timespec \<Rightarrow> fzsync_stat" where
  "fzsync_upd_diff_stat s alpha t1 t2 = fzsync_upd_stat s alpha (real_of_int (fzsync_diff_ns t1 t2))"

subsection \<open>Messages and errors\<close>

datatype msg =
    Minimum_sampling_period_ended
  | Reached_deviation_ratios
  | Delay_range_is
  | Cant_calculate_random_delay
  | Stopped_sampling
  | Exceeded_execution_time
  | Exceeded_execution_loops
  | Pair_info

datatype param = P_avg_alpha | P_min_samples | P_max_dev_ratio | P_exec_time | P_exec_loops

datatype error =
    Assert_ge_low param
  | Assert_le_hi param
  | Assert_now_ge_start

subsection \<open>Initialisation\<close>

text \<open>
  The macro \<open>CHK(param, low, hi, def)\<close>: a zero field takes the default, then the two
  assertions. The comparison is a parameter because the macro is used at \<open>float\<close> and
  at \<open>int\<close>.
\<close>

definition CHK :: "('a \<Rightarrow> 'a \<Rightarrow> bool) \<Rightarrow> param \<Rightarrow> 'a::zero \<Rightarrow> 'a \<Rightarrow> 'a \<Rightarrow> 'a \<Rightarrow> error + 'a" where
  "CHK le nm v low hi def =
     (let v' = (if v \<noteq> 0 then v else def)
      in if \<not> le low v' then Inl (Assert_ge_low nm)
         else if \<not> le v' hi then Inl (Assert_le_hi nm)
         else Inr v')"

definition fzsync_pair_init :: "fzsync_pair \<Rightarrow> error + fzsync_pair" where
  "fzsync_pair_init pair =
     (case CHK (\<le>) P_avg_alpha (avg_alpha pair) FLT_MIN 1 0.25 of
        Inl e \<Rightarrow> Inl e
      | Inr v1 \<Rightarrow>
     (case CHK (\<le>s) P_min_samples (min_samples pair) 20 INT_MAX 1024 of
        Inl e \<Rightarrow> Inl e
      | Inr v2 \<Rightarrow>
     (case CHK (\<le>) P_max_dev_ratio (max_dev_ratio pair) FLT_MIN 1 0.1 of
        Inl e \<Rightarrow> Inl e
      | Inr v3 \<Rightarrow>
     (case CHK (\<le>) P_exec_time (exec_time pair) 1 FLT_MAX 150 of
        Inl e \<Rightarrow> Inl e
      | Inr v4 \<Rightarrow>
     (case CHK (\<le>s) P_exec_loops (exec_loops pair) 20 INT_MAX 3000000 of
        Inl e \<Rightarrow> Inl e
      | Inr v5 \<Rightarrow>
          Inr (pair\<lparr>avg_alpha := v1, min_samples := v2, max_dev_ratio := v3,
                    exec_time := v4, exec_loops := v5\<rparr>))))))"

subsection \<open>Cleanup, clock and reset\<close>

text \<open>
  \<open>join_rval\<close> is what \<open>pthread_join\<close> returns if it is called. \<open>usleep\<close> and
  \<open>pthread_cancel\<close> act on thread B only and leave the pair alone.
\<close>

definition fzsync_pair_cleanup :: "fzsync_pair \<Rightarrow> c_int \<Rightarrow> c_int \<times> fzsync_pair" where
  "fzsync_pair_cleanup pair join_rval =
     (if thread_b pair \<noteq> 0 then
        let pair1 = (if exit pair = 0 then pair\<lparr>exit := 1\<rparr> else pair)
        in (join_rval, pair1\<lparr>thread_b := 0\<rparr>)
      else (0, pair))"

text \<open>\<open>now\<close> is what \<open>fzsync_time\<close> stores, that is the reading of the monotonic clock.\<close>

definition fzsync_timeout_remaining :: "fzsync_pair \<Rightarrow> timespec \<Rightarrow> error + int" where
  "fzsync_timeout_remaining pair now =
     (let res = c_trunc (exec_time pair)
      in if \<not> tv_sec (exec_time_start pair) \<le> tv_sec now then Inl Assert_now_ge_start
         else
           let res = res - (tv_sec now - tv_sec (exec_time_start pair))
           in if 0 < res then Inr res
              else if res < 0 then Inr 0
              else
                let res = tv_nsec now - tv_nsec (exec_time_start pair)
                in if 0 < res then Inr 1 else Inr 0)"

text \<open>
  The budget that is really left, in seconds: \<open>exec_time\<close> minus the time elapsed between
  the recorded start and \<open>now\<close>.
\<close>

definition budget_left :: "fzsync_pair \<Rightarrow> timespec \<Rightarrow> real" where
  "budget_left pair now =
     exec_time pair - real_of_int (fzsync_diff_ns now (exec_time_start pair)) / 1000000000"

record reset_env =
  join_status :: c_int
  create_status :: c_int
  created_thread :: nat
  time_status :: c_int
  time_now :: timespec

text \<open>
  \<open>run_b\<close> says whether the function pointer is non-null. The environment gives the
  status of \<open>pthread_join\<close>, \<open>pthread_create\<close> and \<open>clock_gettime\<close>, the handle that
  \<open>pthread_create\<close> stores and the time that \<open>clock_gettime\<close> stores.
\<close>

definition fzsync_pair_reset :: "fzsync_pair \<Rightarrow> bool \<Rightarrow> reset_env \<Rightarrow> c_int \<times> fzsync_pair" where
  "fzsync_pair_reset pair0 run_b env =
     (let pair = snd (fzsync_pair_cleanup pair0 (join_status env));
          pair = pair\<lparr>diff_ss := fzsync_init_stat (diff_ss pair)\<rparr>;
          pair = pair\<lparr>diff_sa := fzsync_init_stat (diff_sa pair)\<rparr>;
          pair = pair\<lparr>diff_sb := fzsync_init_stat (diff_sb pair)\<rparr>;
          pair = pair\<lparr>diff_ab := fzsync_init_stat (diff_ab pair)\<rparr>;
          pair = pair\<lparr>spins_avg := fzsync_init_stat (spins_avg pair)\<rparr>;
          pair = pair\<lparr>delay := 0\<rparr>;
          pair = pair\<lparr>sampling := min_samples pair\<rparr>;
          pair = pair\<lparr>exec_loop := 0\<rparr>;
          pair = pair\<lparr>a_cntr := 0\<rparr>;
          pair = pair\<lparr>b_cntr := 0\<rparr>;
          pair = pair\<lparr>exit := 0\<rparr>
      in if run_b then
           let pair = pair\<lparr>thread_b := created_thread env\<rparr>
           in if create_status env \<noteq> 0 then (create_status env, pair)
              else (time_status env, pair\<lparr>exec_time_start := time_now env\<rparr>)
         else (time_status env, pair\<lparr>exec_time_start := time_now env\<rparr>))"

subsection \<open>Statistics and delay\<close>

definition over_max_dev :: "fzsync_pair \<Rightarrow> bool" where
  "over_max_dev pair =
     (let max_dev = max_dev_ratio pair
      in max_dev < dev_ratio (diff_ss pair)
         \<or> max_dev < dev_ratio (diff_sa pair)
         \<or> max_dev < dev_ratio (diff_sb pair)
         \<or> max_dev < dev_ratio (diff_ab pair)
         \<or> max_dev < dev_ratio (spins_avg pair))"

text \<open>The two local variables of \<open>fzsync_pair_update\<close>; \<open>r\<close> is the value of \<open>drand48()\<close>.\<close>

definition per_spin_time :: "fzsync_pair \<Rightarrow> real" where
  "per_spin_time pair = \<bar>avg (diff_ab pair)\<bar> / max (avg (spins_avg pair)) 1"

definition time_delay :: "fzsync_pair \<Rightarrow> real \<Rightarrow> real" where
  "time_delay pair r = r * (avg (diff_sa pair) + avg (diff_sb pair)) - avg (diff_sb pair)"

text \<open>The first branch of \<open>fzsync_pair_update\<close>: the five statistics take a sample.\<close>

definition upd_samples :: "fzsync_pair \<Rightarrow> fzsync_pair" where
  "upd_samples pair =
     (let alpha = avg_alpha pair;
          pair = pair\<lparr>diff_ss := fzsync_upd_diff_stat (diff_ss pair) alpha (a_start pair) (b_start pair)\<rparr>;
          pair = pair\<lparr>diff_sa := fzsync_upd_diff_stat (diff_sa pair) alpha (a_end pair) (a_start pair)\<rparr>;
          pair = pair\<lparr>diff_sb := fzsync_upd_diff_stat (diff_sb pair) alpha (b_end pair) (b_start pair)\<rparr>;
          pair = pair\<lparr>diff_ab := fzsync_upd_diff_stat (diff_ab pair) alpha (a_end pair) (b_end pair)\<rparr>
      in pair\<lparr>spins_avg := fzsync_upd_stat (spins_avg pair) alpha (real_of_int (sint (spins pair)))\<rparr>)"

text \<open>
  The conversion \<open>(int)(1.1 * time_delay / per_spin_time)\<close> truncates; a value outside
  the range of \<open>int\<close> (undefined in C) is reduced modulo \<open>2^32\<close> here.
\<close>

definition fzsync_pair_update :: "fzsync_pair \<Rightarrow> real \<Rightarrow> fzsync_pair \<times> msg list" where
  "fzsync_pair_update pair0 r =
     (let pair = pair0\<lparr>delay := delay_bias pair0\<rparr>;
          res =
            (if 0 <s sampling pair \<or> over_max_dev pair then
               let pair = upd_samples pair
               in if 0 <s sampling pair then
                    let pair = pair\<lparr>sampling := sampling pair - 1\<rparr>
                    in if sampling pair = 0
                       then (pair, [Minimum_sampling_period_ended, Pair_info])
                       else (pair, [])
                  else (pair, [])
             else if 1 \<le> \<bar>avg (diff_ab pair)\<bar> then
               let pair = pair\<lparr>delay := delay pair
                     + word_of_int (c_trunc (1.1 * time_delay pair r / per_spin_time pair))\<rparr>
               in if sampling pair = 0
                  then (pair\<lparr>sampling := - 1\<rparr>,
                        [Reached_deviation_ratios, Delay_range_is, Pair_info])
                  else (pair, [])
             else if sampling pair = 0
               then (pair\<lparr>sampling := - 1\<rparr>, [Cant_calculate_random_delay, Pair_info])
               else (pair, []))
      in ((fst res)\<lparr>spins := 0\<rparr>, snd res))"

definition fzsync_pair_add_bias :: "fzsync_pair \<Rightarrow> c_int \<Rightarrow> fzsync_pair" where
  "fzsync_pair_add_bias pair change =
     (if 0 <s sampling pair then pair\<lparr>delay_bias := delay_bias pair + change\<rparr> else pair)"

subsection \<open>The rendezvous as thread A sees it\<close>

text \<open>
  \<open>fzsync_pair_wait\<close> spins until the other thread arrives; its steps and their
  interleaving with the other thread are modelled in the next subsection but one.
  For the functions of thread A that call it, a completed call is summarised by what it
  leaves behind: the other counter has been incremented (and stored as 0 when the
  increment reached \<open>INT_MAX\<close>), our counter holds what the other thread last wrote to it,
  and the spin counter, where one is passed, has grown by the number of counted spins.
\<close>

record rendezvous =
  our_seen :: c_int
  spun :: c_int

definition pair_wait_returned ::
  "c_int \<Rightarrow> c_int \<Rightarrow> c_int option \<Rightarrow> rendezvous \<Rightarrow> c_int \<times> c_int \<times> c_int option" where
  "pair_wait_returned our_cntr other_cntr spins_ptr rv =
     (let other1 = other_cntr + 1
      in (our_seen rv,
          (if other1 = INT_MAX then 0 else other1),
          map_option (\<lambda>n. n + spun rv) spins_ptr))"

definition fzsync_wait_a :: "fzsync_pair \<Rightarrow> rendezvous \<Rightarrow> fzsync_pair" where
  "fzsync_wait_a pair rv =
     (case pair_wait_returned (a_cntr pair) (b_cntr pair) None rv of
        (our, other, _) \<Rightarrow> pair\<lparr>a_cntr := our, b_cntr := other\<rparr>)"

text \<open>
  What thread B stores into the pair during an iteration and thread A reads in the next
  \<open>fzsync_pair_update\<close>: its two timestamps and its own counted spins.
\<close>

record b_writes =
  b_start_w :: timespec
  b_end_w :: timespec
  b_spun :: c_int

definition thread_b_wrote :: "fzsync_pair \<Rightarrow> b_writes \<Rightarrow> fzsync_pair" where
  "thread_b_wrote pair w =
     pair\<lparr>b_start := b_start_w w, b_end := b_end_w w, spins := spins pair + b_spun w\<rparr>"

subsection \<open>The loop of thread A\<close>

definition SAMPLING_SLICE :: real where
  "SAMPLING_SLICE = 0.5"

definition fzsync_run_a ::
  "fzsync_pair \<Rightarrow> timespec \<Rightarrow> rendezvous \<Rightarrow> c_int \<Rightarrow> error + (c_int \<times> fzsync_pair \<times> msg list)" where
  "fzsync_run_a pair0 now rv join_rval =
     (case fzsync_timeout_remaining pair0 now of
        Inl e \<Rightarrow> Inl e
      | Inr t \<Rightarrow>
          let rem = real_of_int t;
              stop_sampling = (rem < exec_time pair0 * SAMPLING_SLICE \<and> 0 <s sampling pair0);
              pair = (if stop_sampling then pair0\<lparr>sampling := 0\<rparr> else pair0);
              out1 = (if stop_sampling then [Stopped_sampling, Pair_info] else []);
              exit1 = (if rem = 0 then 1 else 0);
              out2 = (if rem = 0 then [Exceeded_execution_time] else []);
              pair = pair\<lparr>exec_loop := exec_loop pair + 1\<rparr>;
              over = exec_loops pair <s exec_loop pair;
              exit2 = (if over then 1 else exit1);
              out3 = (if over then [Exceeded_execution_loops] else []);
              pair = pair\<lparr>exit := exit2\<rparr>;
              pair = fzsync_wait_a pair rv
          in if exit2 \<noteq> 0
             then Inr (0, snd (fzsync_pair_cleanup pair join_rval), out1 @ out2 @ out3)
             else Inr (1, pair, out1 @ out2 @ out3))"

text \<open>
  In \<open>fzsync_start_race_a\<close> the delay loop \<open>while (delay < 0) delay++\<close> counts a local
  variable up to 0 and touches nothing else. \<open>now\<close> is the clock reading stored in
  \<open>a_start\<close>, respectively \<open>a_end\<close>.
\<close>

definition fzsync_start_race_a ::
  "fzsync_pair \<Rightarrow> real \<Rightarrow> rendezvous \<Rightarrow> timespec \<Rightarrow> fzsync_pair \<times> msg list" where
  "fzsync_start_race_a pair r rv now =
     (let res = fzsync_pair_update pair r;
          pair = fzsync_wait_a (fst res) rv
      in (pair\<lparr>a_start := now\<rparr>, snd res))"

definition fzsync_end_race_a :: "fzsync_pair \<Rightarrow> timespec \<Rightarrow> rendezvous \<Rightarrow> fzsync_pair" where
  "fzsync_end_race_a pair0 now rv =
     (let pair = pair0\<lparr>a_end := now\<rparr>
      in (case pair_wait_returned (a_cntr pair) (b_cntr pair) (Some (spins pair)) rv of
            (our, other, sp) \<Rightarrow>
              pair\<lparr>a_cntr := our, b_cntr := other,
                   spins := (case sp of Some n \<Rightarrow> n | None \<Rightarrow> spins pair)\<rparr>))"

text \<open>
  One iteration of the loop of the header's introduction,
  \<^verbatim>\<open>while (fzsync_run_a(&pair)) { ...; fzsync_start_race_a(&pair); ...; fzsync_end_race_a(&pair); ... }\<close>
  takes from its environment the clock readings, the random draw, the three completed
  rendezvous, what thread B wrote, and the bias changes the caller makes before and
  after the race.
\<close>

record iter_env =
  clock_run :: timespec
  rv_run :: rendezvous
  join_run :: c_int
  bias_before :: "c_int list"
  drand :: real
  rv_start :: rendezvous
  clock_start :: timespec
  clock_end :: timespec
  rv_end :: rendezvous
  b_wrote :: b_writes
  bias_after :: "c_int list"

definition race_body_a :: "fzsync_pair \<Rightarrow> iter_env \<Rightarrow> fzsync_pair \<times> msg list" where
  "race_body_a pair0 e =
     (let pair = foldl fzsync_pair_add_bias pair0 (bias_before e);
          res = fzsync_start_race_a pair (drand e) (rv_start e) (clock_start e);
          pair = fzsync_end_race_a (fst res) (clock_end e) (rv_end e);
          pair = thread_b_wrote pair (b_wrote e);
          pair = foldl fzsync_pair_add_bias pair (bias_after e)
      in (pair, snd res))"

text \<open>
  The loop over a list of environments, one per call of \<open>fzsync_run_a\<close>. The result
  says whether \<open>fzsync_run_a\<close> returned 0 (the loop ended) before the list did, how many
  iterations ran, the pair and the messages printed.
\<close>

fun loop_a :: "fzsync_pair \<Rightarrow> iter_env list \<Rightarrow> error + (bool \<times> nat \<times> fzsync_pair \<times> msg list)" where
  "loop_a pair [] = Inr (False, 0, pair, [])"
| "loop_a pair (e # es) =
     (case fzsync_run_a pair (clock_run e) (rv_run e) (join_run e) of
        Inl err \<Rightarrow> Inl err
      | Inr (go, pair1, out1) \<Rightarrow>
          if go = 0 then Inr (True, 0, pair1, out1)
          else
            (let res = race_body_a pair1 e
             in (case loop_a (fst res) es of
                   Inl err \<Rightarrow> Inl err
                 | Inr (stopped, n, pair2, out3) \<Rightarrow>
                     Inr (stopped, Suc n, pair2, out1 @ snd res @ out3))))"

subsection \<open>The rendezvous of two threads\<close>

text \<open>
  \<open>fzsync_pair_wait(our_cntr, other_cntr, spins)\<close> step by step. Both counters are only
  accessed by sequentially consistent atomic operations, so an execution of the two
  threads is an interleaving of these steps. A thread is outside the function or at one
  of its loads or stores:
  \<^item> \<open>Outside\<close>: the next step is \<open>fzsync_atomic_inc(other_cntr)\<close> and the branch on
    \<open>== INT_MAX\<close>;
  \<^item> \<open>Reset_spin\<close>, \<open>Reset_spin2\<close>: the two loads of the first loop,
    \<open>load(our_cntr) > 0\<close> and \<open>load(our_cntr) < INT_MAX\<close>;
  \<^item> \<open>Reset_store\<close>: \<open>fzsync_atomic_store(0, other_cntr)\<close>;
  \<^item> \<open>Reset_settle\<close>: the second loop, \<open>load(our_cntr) > 1\<close>;
  \<^item> \<open>Else_spin\<close>: the loop of the else branch, \<open>load(our_cntr) < load(other_cntr)\<close>.
    \<open>other_cntr\<close> is written by the calling thread only (thread A increments and resets
    \<open>b_cntr\<close>, thread B \<open>a_cntr\<close>), so its load returns what the thread wrote last and the
    test is one step.
  The step returns the new value of \<open>other_cntr\<close> and the next position. The spin counter,
  which no test reads, is left out.
\<close>

datatype wait_pc =
    Outside
  | Reset_spin
  | Reset_spin2
  | Reset_store
  | Reset_settle
  | Else_spin

definition fzsync_pair_wait_step :: "c_int \<Rightarrow> c_int \<Rightarrow> wait_pc \<Rightarrow> c_int \<times> wait_pc" where
  "fzsync_pair_wait_step our_cntr other_cntr pc =
     (case pc of
        Outside \<Rightarrow>
          (let v = other_cntr + 1
           in (v, if v = INT_MAX then Reset_spin else Else_spin))
      | Reset_spin \<Rightarrow> (other_cntr, if 0 <s our_cntr then Reset_spin2 else Reset_store)
      | Reset_spin2 \<Rightarrow> (other_cntr, if our_cntr <s INT_MAX then Reset_spin else Reset_store)
      | Reset_store \<Rightarrow> (0, Reset_settle)
      | Reset_settle \<Rightarrow> (other_cntr, if 1 <s our_cntr then Reset_settle else Outside)
      | Else_spin \<Rightarrow> (other_cntr, if our_cntr <s other_cntr then Else_spin else Outside))"

text \<open>The thread is in a loop of \<open>fzsync_pair_wait\<close> whose test tells it to go on spinning.\<close>

definition spinning :: "c_int \<Rightarrow> c_int \<Rightarrow> wait_pc \<Rightarrow> bool" where
  "spinning our_cntr other_cntr pc =
     (case pc of
        Outside \<Rightarrow> False
      | Reset_spin \<Rightarrow> 0 <s our_cntr \<and> our_cntr <s INT_MAX
      | Reset_spin2 \<Rightarrow> 0 <s our_cntr \<and> our_cntr <s INT_MAX
      | Reset_store \<Rightarrow> False
      | Reset_settle \<Rightarrow> 1 <s our_cntr
      | Else_spin \<Rightarrow> our_cntr <s other_cntr)"

text \<open>
  The two counters, where each thread is, and how many calls of \<open>fzsync_pair_wait\<close>
  (through \<open>fzsync_wait_a\<close>, \<open>fzsync_run_a\<close>, \<open>fzsync_start_race_a\<close>, \<open>fzsync_end_race_a\<close>
  and their counterparts of thread B) each thread has begun and has returned from. Thread
  A calls with \<open>(a_cntr, b_cntr)\<close>, thread B with \<open>(b_cntr, a_cntr)\<close>; a thread that is
  outside begins its next call with its next step.
\<close>

record barrier =
  cntr_a :: c_int
  cntr_b :: c_int
  pc_a :: wait_pc
  pc_b :: wait_pc
  begun_a :: nat
  done_a :: nat
  begun_b :: nat
  done_b :: nat

definition step_a :: "barrier \<Rightarrow> barrier" where
  "step_a s =
     (let res = fzsync_pair_wait_step (cntr_a s) (cntr_b s) (pc_a s)
      in s\<lparr>cntr_b := fst res, pc_a := snd res,
           begun_a := (if pc_a s = Outside then Suc (begun_a s) else begun_a s),
           done_a := (if pc_a s \<noteq> Outside \<and> snd res = Outside then Suc (done_a s) else done_a s)\<rparr>)"

definition step_b :: "barrier \<Rightarrow> barrier" where
  "step_b s =
     (let res = fzsync_pair_wait_step (cntr_b s) (cntr_a s) (pc_b s)
      in s\<lparr>cntr_a := fst res, pc_b := snd res,
           begun_b := (if pc_b s = Outside then Suc (begun_b s) else begun_b s),
           done_b := (if pc_b s \<noteq> Outside \<and> snd res = Outside then Suc (done_b s) else done_b s)\<rparr>)"

text \<open>After \<open>fzsync_pair_reset\<close>: both counters are 0 and no call has begun.\<close>

definition barrier_init :: barrier where
  "barrier_init = \<lparr>cntr_a = 0, cntr_b = 0, pc_a = Outside, pc_b = Outside,
                    begun_a = 0, done_a = 0, begun_b = 0, done_b = 0\<rparr>"

inductive reachable :: "barrier \<Rightarrow> bool" where
  reach_init: "reachable barrier_init"
| reach_a: "reachable s \<Longrightarrow> reachable (step_a s)"
| reach_b: "reachable s \<Longrightarrow> reachable (step_b s)"

definition waiting_a :: "barrier \<Rightarrow> bool" where
  "waiting_a s = spinning (cntr_a s) (cntr_b s) (pc_a s)"

definition waiting_b :: "barrier \<Rightarrow> bool" where
  "waiting_b s = spinning (cntr_b s) (cntr_a s) (pc_b s)"

text \<open>
  The positions of the \<open>INT_MAX\<close> branch, those of it before the store of 0, and the
  states in which exactly one of the two threads has stored its 0.
\<close>

fun in_reset :: "wait_pc \<Rightarrow> bool" where
  "in_reset Outside = False"
| "in_reset Else_spin = False"
| "in_reset _ = True"

fun before_store :: "wait_pc \<Rightarrow> bool" where
  "before_store Reset_spin = True"
| "before_store Reset_spin2 = True"
| "before_store Reset_store = True"
| "before_store _ = False"

definition reset_window :: "barrier \<Rightarrow> bool" where
  "reset_window s =
     (pc_a s = Reset_settle \<and> before_store (pc_b s) \<or> pc_b s = Reset_settle \<and> before_store (pc_a s))"

text \<open>
  The invariant of the interleaving. \<open>a\<close> and \<open>b\<close> are the counters, \<open>d\<close> is the number
  of calls begun by A minus that of B. Outside the \<open>INT_MAX\<close> branch the counters differ
  as the numbers of begun calls do; \<open>reset_ok\<close> lists the values at each position of a
  thread inside the \<open>INT_MAX\<close> branch, seen from that thread.
\<close>

definition normal_ok :: "wait_pc \<Rightarrow> wait_pc \<Rightarrow> int \<Rightarrow> int \<Rightarrow> int \<Rightarrow> bool" where
  "normal_ok pa pb a b d =
     (0 \<le> a \<and> a < 2147483647 \<and> 0 \<le> b \<and> b < 2147483647 \<and> b - a = d \<and> - 1 \<le> d \<and> d \<le> 1
      \<and> (pa = Outside \<longrightarrow> d \<le> 0) \<and> (pb = Outside \<longrightarrow> 0 \<le> d))"

fun reset_ok :: "wait_pc \<Rightarrow> wait_pc \<Rightarrow> int \<Rightarrow> int \<Rightarrow> int \<Rightarrow> bool" where
  "reset_ok Reset_spin pb a b d =
     (if \<not> in_reset pb then a = 2147483646 \<and> b = 2147483647 \<and> d = 1
      else if before_store pb then a = 2147483647 \<and> b = 2147483647 \<and> d = 0
      else a = 0 \<and> b = 2147483647 \<and> d = 0)"
| "reset_ok Reset_spin2 pb a b d =
     (if \<not> in_reset pb then a = 2147483646 \<and> b = 2147483647 \<and> d = 1
      else if before_store pb then a = 2147483647 \<and> b = 2147483647 \<and> d = 0
      else a = 0 \<and> b = 2147483647 \<and> d = 0)"
| "reset_ok Reset_store pb a b d =
     (if \<not> in_reset pb then False
      else if before_store pb then a = 2147483647 \<and> b = 2147483647 \<and> d = 0
      else a = 0 \<and> b = 2147483647 \<and> d = 0)"
| "reset_ok Reset_settle pb a b d =
     (if pb = Outside then a = 0 \<and> b = 0 \<and> d = 0
      else if pb = Else_spin then a = 1 \<and> b = 0 \<and> d = - 1
      else if before_store pb then a = 2147483647 \<and> b = 0 \<and> d = 0
      else a = 0 \<and> b = 0 \<and> d = 0)"
| "reset_ok _ pb a b d = False"

definition barrier_inv :: "barrier \<Rightarrow> bool" where
  "barrier_inv s =
     (let a = sint (cntr_a s); b = sint (cntr_b s);
          d = int (begun_a s) - int (begun_b s)
      in begun_a s = done_a s + (if pc_a s = Outside then 0 else 1)
         \<and> begun_b s = done_b s + (if pc_b s = Outside then 0 else 1)
         \<and> (if in_reset (pc_a s) then reset_ok (pc_a s) (pc_b s) a b d
            else if in_reset (pc_b s) then reset_ok (pc_b s) (pc_a s) b a (- d)
            else normal_ok (pc_a s) (pc_b s) a b d))"


text \<open>
  Schedules: \<open>sched i\<close> says that step \<open>i\<close> is taken by thread A, otherwise by thread B.
  A schedule is fair if each thread keeps taking steps. \<open>steps_left\<close> bounds the steps a
  thread that is not spinning needs to leave the function.
\<close>

fun steps_left :: "int \<Rightarrow> wait_pc \<Rightarrow> nat" where
  "steps_left our Outside = 6"
| "steps_left our Reset_spin = (if our = 0 then 3 else 5)"
| "steps_left our Reset_spin2 = (if 0 < our \<and> our < 2147483647 then 5 else 4)"
| "steps_left our Reset_store = 2"
| "steps_left our Reset_settle = 1"
| "steps_left our Else_spin = 1"

definition rank :: "barrier \<Rightarrow> nat" where
  "rank s = steps_left (sint (cntr_a s)) (pc_a s) + steps_left (sint (cntr_b s)) (pc_b s)"

definition shift :: "(nat \<Rightarrow> bool) \<Rightarrow> nat \<Rightarrow> bool" where
  "shift sched i = sched (Suc i)"

fun exec :: "(nat \<Rightarrow> bool) \<Rightarrow> nat \<Rightarrow> barrier \<Rightarrow> barrier" where
  "exec sched 0 s = s"
| "exec sched (Suc n) s = exec (shift sched) n (if sched 0 then step_a s else step_b s)"

definition fair :: "(nat \<Rightarrow> bool) \<Rightarrow> bool" where
  "fair sched = (\<forall>i. (\<exists>j\<ge>i. sched j) \<and> (\<exists>j\<ge>i. \<not> sched j))"

definition total :: "barrier \<Rightarrow> nat" where
  "total s = done_a s + done_b s"

text \<open>
  The schedule that alternates the threads; the state after \<open>k\<close> rendezvous, both threads
  outside; and the state at the \<open>2147483647\<close>th rendezvous in which thread A has stored
  its 0 and thread B has not.
\<close>

definition alternate :: "nat \<Rightarrow> bool" where
  "alternate i = even i"

definition in_step :: "nat \<Rightarrow> barrier" where
  "in_step k = \<lparr>cntr_a = of_nat k, cntr_b = of_nat k, pc_a = Outside, pc_b = Outside,
                 begun_a = k, done_a = k, begun_b = k, done_b = k\<rparr>"

definition barrier_torn :: barrier where
  "barrier_torn = \<lparr>cntr_a = INT_MAX, cntr_b = 0, pc_a = Reset_settle, pc_b = Reset_spin,
                    begun_a = 2147483647, done_a = 2147483646,
                    begun_b = 2147483647, done_b = 2147483646\<rparr>"

subsection \<open>Derived notions and sample values\<close>


text \<open>The five statistics of a pair.\<close>

definition stats_of ::
  "fzsync_pair \<Rightarrow> fzsync_stat \<times> fzsync_stat \<times> fzsync_stat \<times> fzsync_stat \<times> fzsync_stat" where
  "stats_of pair = (diff_ss pair, diff_sa pair, diff_sb pair, diff_ab pair, spins_avg pair)"

text \<open>A configuration field that is set (nonzero) and outside the range \<open>CHK\<close> asserts.\<close>

fun out_of_range :: "fzsync_pair \<Rightarrow> param \<Rightarrow> bool" where
  "out_of_range pair P_avg_alpha =
     (avg_alpha pair \<noteq> 0 \<and> \<not> (FLT_MIN \<le> avg_alpha pair \<and> avg_alpha pair \<le> 1))"
| "out_of_range pair P_min_samples =
     (min_samples pair \<noteq> 0 \<and> \<not> (20 \<le>s min_samples pair \<and> min_samples pair \<le>s INT_MAX))"
| "out_of_range pair P_max_dev_ratio =
     (max_dev_ratio pair \<noteq> 0 \<and> \<not> (FLT_MIN \<le> max_dev_ratio pair \<and> max_dev_ratio pair \<le> 1))"
| "out_of_range pair P_exec_time =
     (exec_time pair \<noteq> 0 \<and> \<not> (1 \<le> exec_time pair \<and> exec_time pair \<le> FLT_MAX))"
| "out_of_range pair P_exec_loops =
     (exec_loops pair \<noteq> 0 \<and> \<not> (20 \<le>s exec_loops pair \<and> exec_loops pair \<le>s INT_MAX))"

text \<open>A pair with every field zero, as a static \<open>struct fzsync_pair\<close> starts out.\<close>

definition pair_zero :: fzsync_pair where
  "pair_zero =
     \<lparr>avg_alpha = 0,
      a_start = \<lparr>tv_sec = 0, tv_nsec = 0\<rparr>, b_start = \<lparr>tv_sec = 0, tv_nsec = 0\<rparr>,
      a_end = \<lparr>tv_sec = 0, tv_nsec = 0\<rparr>, b_end = \<lparr>tv_sec = 0, tv_nsec = 0\<rparr>,
      diff_ss = \<lparr>avg = 0, avg_dev = 0, dev_ratio = 0\<rparr>,
      diff_sa = \<lparr>avg = 0, avg_dev = 0, dev_ratio = 0\<rparr>,
      diff_sb = \<lparr>avg = 0, avg_dev = 0, dev_ratio = 0\<rparr>,
      diff_ab = \<lparr>avg = 0, avg_dev = 0, dev_ratio = 0\<rparr>,
      spins = 0,
      spins_avg = \<lparr>avg = 0, avg_dev = 0, dev_ratio = 0\<rparr>,
      delay = 0, delay_bias = 0, sampling = 0, min_samples = 0, max_dev_ratio = 0,
      a_cntr = 0, b_cntr = 0, exit = 0, exec_time = 0,
      exec_time_start = \<lparr>tv_sec = 0, tv_nsec = 0\<rparr>,
      exec_loops = 0, exec_loop = 0, thread_b = 0\<rparr>"

text \<open>The same with the default configuration of \<open>fzsync_pair_init\<close>.\<close>

definition pair_default :: fzsync_pair where
  "pair_default =
     pair_zero\<lparr>avg_alpha := 0.25, min_samples := 1024, max_dev_ratio := 0.1,
       exec_time := 150, exec_loops := 3000000\<rparr>"

text \<open>The statistics of the delay-range example, in a pair that has stopped sampling.\<close>

definition pair_converged :: fzsync_pair where
  "pair_converged =
     pair_default\<lparr>sampling := - 1,
       diff_sa := \<lparr>avg = 500, avg_dev = 0, dev_ratio = 0\<rparr>,
       diff_sb := \<lparr>avg = 300, avg_dev = 0, dev_ratio = 0\<rparr>,
       diff_ab := \<lparr>avg = 1000, avg_dev = 0, dev_ratio = 0\<rparr>,
       spins_avg := \<lparr>avg = 100, avg_dev = 0, dev_ratio = 0\<rparr>\<rparr>"

text \<open>
  The default configuration after the mandatory samples (the counter is 0), with the
  deviation ratio of the B-duration statistic, 1/2, over the maximum 0.1.
\<close>

definition pair_noisy :: fzsync_pair where
  "pair_noisy = pair_default\<lparr>diff_sb := \<lparr>avg = 300, avg_dev = 150, dev_ratio = 1/2\<rparr>\<rparr>"

text \<open>Budgets of 150 s started 0.5 s, respectively 0.1 s, into a second.\<close>

definition pair_late :: fzsync_pair where
  "pair_late = pair_default\<lparr>exec_time_start := \<lparr>tv_sec = 0, tv_nsec = 500000000\<rparr>\<rparr>"

definition pair_early :: fzsync_pair where
  "pair_early = pair_default\<lparr>exec_time_start := \<lparr>tv_sec = 0, tv_nsec = 100000000\<rparr>\<rparr>"

definition env_zero :: reset_env where
  "env_zero = \<lparr>join_status = 0, create_status = 0, created_thread = 0, time_status = 0,
                time_now = \<lparr>tv_sec = 0, tv_nsec = 0\<rparr>\<rparr>"

text \<open>The messages that announce the end of sampling: convergence or no usable delay.\<close>

fun is_transition :: "msg \<Rightarrow> bool" where
  "is_transition Reached_deviation_ratios = True"
| "is_transition Cant_calculate_random_delay = True"
| "is_transition _ = False"

text \<open>An iteration in which the caller makes no call of \<open>fzsync_pair_add_bias\<close>.\<close>

definition no_bias :: "iter_env \<Rightarrow> iter_env" where
  "no_bias e = e\<lparr>bias_before := [], bias_after := []\<rparr>"

text \<open>Whether the loop ended and after how many iterations; \<open>None\<close> for a failed assertion.\<close>

definition loop_outcome ::
  "error + (bool \<times> nat \<times> fzsync_pair \<times> msg list) \<Rightarrow> (bool \<times> nat) option" where
  "loop_outcome res =
     (case res of Inl err \<Rightarrow> None | Inr (stopped, n, pair, out) \<Rightarrow> Some (stopped, n))"

text \<open>
  The time budget is not exhausted in any call of \<open>fzsync_run_a\<close> of a run: each
  \<open>fzsync_timeout_remaining\<close> returns a nonzero value.
\<close>

definition budget_lasts :: "fzsync_pair \<Rightarrow> iter_env list \<Rightarrow> bool" where
  "budget_lasts pair es =
     list_all (\<lambda>e. case fzsync_timeout_remaining pair (clock_run e) of
                     Inl err \<Rightarrow> False | Inr t \<Rightarrow> t \<noteq> 0) es"

definition env_iter_zero :: iter_env where
  "env_iter_zero =
     \<lparr>clock_run = \<lparr>tv_sec = 0, tv_nsec = 0\<rparr>,
      rv_run = \<lparr>our_seen = 0, spun = 0\<rparr>, join_run = 0, bias_before = [], drand = 0,
      rv_start = \<lparr>our_seen = 0, spun = 0\<rparr>,
      clock_start = \<lparr>tv_sec = 0, tv_nsec = 0\<rparr>, clock_end = \<lparr>tv_sec = 0, tv_nsec = 0\<rparr>,
      rv_end = \<lparr>our_seen = 0, spun = 0\<rparr>,
      b_wrote = \<lparr>b_start_w = \<lparr>tv_sec = 0, tv_nsec = 0\<rparr>,
                 b_end_w = \<lparr>tv_sec = 0, tv_nsec = 0\<rparr>, b_spun = 0\<rparr>,
      bias_after = []\<rparr>"

section \<open>Properties\<close>

subsection \<open>Signed values of 32-bit words\<close>

lemma sless_simps [simp]: "\<not> (0::c_int) <s - 1" "\<not> (0::c_int) <s 0"
  by (simp_all add: word_sless_alt)

lemma sle_INT_MAX: "(x::c_int) \<le>s INT_MAX"
proof -
  have "sint x < 2 ^ (LENGTH(32) - 1)" by (rule sint_lt)
  then show ?thesis by (simp add: word_sle_eq INT_MAX_def)
qed

lemma sint_succ: "sint (x::c_int) < 2147483647 \<Longrightarrow> sint (x + 1) = sint x + 1"
proof -
  assume a: "sint x < 2147483647"
  have l: "- (2 ^ (LENGTH(32) - 1)) \<le> sint x" by (rule sint_ge)
  have "sint (x + 1) = signed_take_bit (LENGTH(32) - 1) (sint x + sint (1::c_int))"
    by (rule sint_word_ariths)
  also have "\<dots> = sint x + 1"
    using a l by (simp add: signed_take_bit_int_eq_self)
  finally show ?thesis .
qed

lemma sint_inj: "sint (x::c_int) = sint y \<Longrightarrow> x = y"
  by (rule signed_word_eqI)

lemma sint_INT_MAX [simp]: "sint INT_MAX = 2147483647"
  by (simp add: INT_MAX_def)

lemma not_over_INT_MAX [simp]: "\<not> INT_MAX <s x"
  using sle_INT_MAX [of x] by (simp add: word_sless_alt word_sle_eq)

lemma sint_eq_iff: "(x = y) = (sint (x::c_int) = sint y)"
  using sint_inj by blast

lemma sint_consts [simp]: "sint (1::c_int) = 1" "sint (0::c_int) = 0"
  by simp_all

lemma sint_of_nat_small: "n < 2147483648 \<Longrightarrow> sint (of_nat n :: c_int) = int n"
proof -
  assume a: "n < 2147483648"
  have "sint (of_nat n :: c_int) = signed_take_bit (LENGTH(32) - Suc 0) (int n)"
    using signed_of_nat [where 'a = int and 'b = 32, of n] by simp
  also have "\<dots> = int n"
    using a by (simp add: signed_take_bit_int_eq_self)
  finally show ?thesis .
qed

subsection \<open>Rounding\<close>

lemma round_even_of_int [simp]: "round_even (of_int n) = n"
  by (simp add: round_even_def)

lemma round_even_le: "x \<le> of_int k \<Longrightarrow> round_even x \<le> k"
proof -
  assume a: "x \<le> of_int k"
  have f: "\<lfloor>x\<rfloor> \<le> k" using a by linarith
  show ?thesis
  proof (cases "\<lfloor>x\<rfloor> = k")
    case True
    then have "x = of_int k" using a by linarith
    then show ?thesis by simp
  next
    case False
    then have "\<lfloor>x\<rfloor> + 1 \<le> k" using f by simp
    then show ?thesis using f by (simp add: round_even_def Let_def)
  qed
qed

lemma round_even_ge: "of_int k \<le> x \<Longrightarrow> k \<le> round_even x"
proof -
  assume a: "of_int k \<le> x"
  have f: "k \<le> \<lfloor>x\<rfloor>" using a by linarith
  then show ?thesis by (simp add: round_even_def Let_def)
qed




lemma floor_log2_bounds:
  assumes "x \<noteq> 0"
  shows "2 powi \<lfloor>log 2 \<bar>x\<bar>\<rfloor> \<le> \<bar>x\<bar>" and "\<bar>x\<bar> < 2 powi (\<lfloor>log 2 \<bar>x\<bar>\<rfloor> + 1)"
proof -
  have p: "0 < \<bar>x\<bar>" using assms by simp
  have "2 powr (of_int \<lfloor>log 2 \<bar>x\<bar>\<rfloor>) \<le> \<bar>x\<bar> \<and> \<bar>x\<bar> < 2 powr (of_int (\<lfloor>log 2 \<bar>x\<bar>\<rfloor> + 1))"
    using floor_log_eq_powr_iff [OF p, of 2 "\<lfloor>log 2 \<bar>x\<bar>\<rfloor>"] by simp
  then show "2 powi \<lfloor>log 2 \<bar>x\<bar>\<rfloor> \<le> \<bar>x\<bar>" and "\<bar>x\<bar> < 2 powi (\<lfloor>log 2 \<bar>x\<bar>\<rfloor> + 1)"
    by (simp_all only: powr_real_of_int' [of 2, simplified])
qed



lemma fp_unit_nonneg [simp]: "0 \<le> fp_unit p emin x"
  by (simp add: fp_unit_def)

lemma powi_le_iff: "(2::real) powi a \<le> 2 powi b \<longleftrightarrow> a \<le> b"
proof
  assume l: "(2::real) powi a \<le> 2 powi b"
  show "a \<le> b"
  proof (rule ccontr)
    assume "\<not> a \<le> b"
    then have "b < a" by simp
    then have "(2::real) powi b < 2 powi a" by (rule power_int_strict_increasing) simp
    then show False using l by simp
  qed
next
  assume "a \<le> b"
  then show "(2::real) powi a \<le> 2 powi b" by (rule power_int_increasing) simp
qed

lemma powi_less_iff: "(2::real) powi a < 2 powi b \<longleftrightarrow> a < b"
proof
  assume l: "(2::real) powi a < 2 powi b"
  show "a < b"
  proof (rule ccontr)
    assume "\<not> a < b"
    then have "b \<le> a" by simp
    then have "(2::real) powi b \<le> 2 powi a" by (rule power_int_increasing) simp
    then show False using l by simp
  qed
next
  assume "a < b"
  then show "(2::real) powi a < 2 powi b" by (rule power_int_strict_increasing) simp
qed

lemma powi_diff_int:
  assumes "a \<le> b"
  shows "(2::real) powi b / 2 powi a = of_int (2 ^ nat (b - a))"
proof -
  have "(2::real) powi b / 2 powi a = 2 powi (b - a)" by (simp add: power_int_diff)
  also have "\<dots> = 2 ^ nat (b - a)" using assms by (simp add: power_int_def)
  finally show ?thesis by simp
qed


lemma fp_round_exact:
  assumes "x = of_int N * 2 powi j" and "\<bar>N\<bar> < 2 ^ p" and "emin - int p + 1 \<le> j"
  shows "fp_round p emin x = x"
proof (cases "x = 0")
  case True
  then show ?thesis by (simp add: fp_round_def)
next
  case False
  define e where "e = \<lfloor>log 2 \<bar>x\<bar>\<rfloor>"
  define ue where "ue = max emin e - int p + 1"
  have "\<bar>x\<bar> = of_int \<bar>N\<bar> * 2 powi j" using assms(1) by (simp add: abs_mult)
  also have "\<dots> < 2 ^ p * 2 powi j"
  proof -
    have "real_of_int \<bar>N\<bar> < real_of_int (2 ^ p)" using assms(2) by (simp only: of_int_less_iff)
    then have "real_of_int \<bar>N\<bar> < 2 ^ p" by simp
    then show ?thesis by (rule mult_strict_right_mono) simp
  qed
  also have "\<dots> = 2 powi (int p + j)" by (simp add: power_int_add)
  finally have "\<bar>x\<bar> < 2 powi (int p + j)" .
  moreover have "2 powi e \<le> \<bar>x\<bar>" unfolding e_def using False by (rule floor_log2_bounds)
  ultimately have "(2::real) powi e < 2 powi (int p + j)" by linarith
  then have "e < int p + j" by (simp only: powi_less_iff)
  then have le: "ue \<le> j" using assms(3) by (simp add: ue_def)
  have "x / 2 powi ue = of_int N * (2 powi j / 2 powi ue)" using assms(1) by simp
  also have "\<dots> = of_int (N * 2 ^ nat (j - ue))" by (simp only: powi_diff_int [OF le] of_int_mult)
  finally have i: "x / 2 powi ue = of_int (N * 2 ^ nat (j - ue))" .
  have "fp_round p emin x = 2 powi ue * of_int (round_even (x / 2 powi ue))"
    using False by (simp add: fp_round_def fp_unit_def ue_def e_def)
  also have "\<dots> = 2 powi ue * (x / 2 powi ue)" by (simp only: i round_even_of_int)
  also have "\<dots> = x" by simp
  finally show ?thesis .
qed



lemma fp_mantissa_le:
  assumes "x \<noteq> 0"
  shows "\<bar>round_even (x / fp_unit p emin x)\<bar> \<le> 2 ^ p"
proof -
  define e where "e = \<lfloor>log 2 \<bar>x\<bar>\<rfloor>"
  define ue where "ue = max emin e - int p + 1"
  have u: "fp_unit p emin x = 2 powi ue" by (simp add: fp_unit_def ue_def e_def)
  have "\<bar>x\<bar> < 2 powi (e + 1)" unfolding e_def using assms by (rule floor_log2_bounds)
  also have "\<dots> \<le> 2 powi (ue + int p)" by (simp only: powi_le_iff) (simp add: ue_def)
  also have "\<dots> = 2 powi ue * 2 ^ p" by (simp add: power_int_add)
  finally have "\<bar>x\<bar> < 2 powi ue * 2 ^ p" .
  then have "\<bar>x\<bar> / 2 powi ue < 2 ^ p" by (simp add: field_simps)
  moreover define y where "y = x / 2 powi ue"
  moreover have "\<bar>y\<bar> = \<bar>x\<bar> / 2 powi ue" by (simp add: y_def)
  ultimately have b: "\<bar>y\<bar> < 2 ^ p" by simp
  have "y \<le> of_int (2 ^ p)" using b by simp
  then have "round_even y \<le> 2 ^ p" by (rule round_even_le)
  moreover have "of_int (- (2 ^ p)) \<le> y" using b by simp
  then have "- (2 ^ p) \<le> round_even y" by (rule round_even_ge)
  ultimately show ?thesis unfolding u y_def by linarith
qed

lemma fp_round_idem:
  assumes "0 < p"
  shows "fp_round p emin (fp_round p emin x) = fp_round p emin x"
proof (cases "x = 0")
  case True
  then show ?thesis by (simp add: fp_round_def)
next
  case False
  define ue where "ue = max emin \<lfloor>log 2 \<bar>x\<bar>\<rfloor> - int p + 1"
  define N where "N = round_even (x / fp_unit p emin x)"
  have u: "fp_unit p emin x = 2 powi ue" by (simp add: fp_unit_def ue_def)
  have r: "fp_round p emin x = of_int N * 2 powi ue"
    using False by (simp add: fp_round_def N_def u)
  have le: "emin - int p + 1 \<le> ue" by (simp add: ue_def)
  have nb: "\<bar>N\<bar> \<le> 2 ^ p" unfolding N_def using False by (rule fp_mantissa_le)
  show ?thesis
  proof (cases "\<bar>N\<bar> < 2 ^ p")
    case True
    from fp_round_exact [OF r True le] show ?thesis .
  next
    case False
    then have "\<bar>N\<bar> = 2 ^ p" using nb by simp
    then consider "N = 2 ^ p" | "N = - (2 ^ p)" by linarith
    then have "\<exists>M. N = 2 * M \<and> \<bar>M\<bar> < 2 ^ p"
    proof cases
      case 1
      obtain q where q: "p = Suc q" using assms by (cases p) simp_all
      have "N = 2 * 2 ^ q \<and> \<bar>2 ^ q :: int\<bar> < 2 ^ p" using 1 q by simp
      then show ?thesis by blast
    next
      case 2
      obtain q where q: "p = Suc q" using assms by (cases p) simp_all
      have "N = 2 * (- (2 ^ q)) \<and> \<bar>- (2 ^ q) :: int\<bar> < 2 ^ p" using 2 q by simp
      then show ?thesis by blast
    qed
    then obtain M where M: "N = 2 * M" "\<bar>M\<bar> < 2 ^ p" by blast
    have "fp_round p emin x = of_int M * 2 powi (ue + 1)"
      using r M(1) by (simp add: power_int_add)
    from fp_round_exact [OF this M(2)] le show ?thesis by simp
  qed
qed



lemma float_is_double:
  assumes "to_float d = d"
  shows "to_double d = d"
proof (cases "d = 0")
  case True
  then show ?thesis by (simp add: to_double_def fp_round_def)
next
  case False
  define ue where "ue = max (- 126) \<lfloor>log 2 \<bar>d\<bar>\<rfloor> - int 24 + 1"
  define N where "N = round_even (d / fp_unit 24 (- 126) d)"
  have u: "fp_unit 24 (- 126) d = 2 powi ue" by (simp add: fp_unit_def ue_def)
  have "2 powi ue * of_int N = d"
    using assms False by (simp add: to_float_def fp_round_def N_def u)
  then have r: "d = of_int N * 2 powi ue" by (simp add: mult.commute)
  have "\<bar>N\<bar> \<le> 2 ^ 24" unfolding N_def using False by (rule fp_mantissa_le)
  then have nb: "\<bar>N\<bar> < 2 ^ 53" by simp
  have le: "- 1022 - int 53 + 1 \<le> ue" by (simp add: ue_def)
  show ?thesis unfolding to_double_def using r nb le by (rule fp_round_exact)
qed

lemma to_float_0 [simp]: "to_float 0 = 0"
  by (simp add: to_float_def fp_round_def)

lemma to_double_0 [simp]: "to_double 0 = 0"
  by (simp add: to_double_def fp_round_def)

lemma to_float_idem [simp]: "to_float (to_float x) = to_float x"
  by (simp add: to_float_def fp_round_idem)

lemma to_double_idem [simp]: "to_double (to_double x) = to_double x"
  by (simp add: to_double_def fp_round_idem)

lemma to_double_to_float [simp]: "to_double (to_float x) = to_float x"
  by (rule float_is_double) simp



lemma to_double_mul:
  assumes "\<bar>N\<bar> < 2 ^ 53"
  shows "to_double (of_int N * 2 ^ n) = of_int N * 2 ^ n"
  unfolding to_double_def
proof (rule fp_round_exact [where N = N and j = "int n"])
  show "real_of_int N * 2 ^ n = real_of_int N * 2 powi int n" by simp
  show "\<bar>N\<bar> < 2 ^ 53" by (rule assms)
  show "- 1022 - int 53 + 1 \<le> int n" by simp
qed




subsection \<open>The statistic update\<close>




















lemma double_3: "to_double 3 = 3"
  using to_double_mul [of 3 0] by simp




























subsection \<open>The delay range\<close>



subsection \<open>The remaining time\<close>

lemma timeout_remaining_value:
  assumes "tv_sec (exec_time_start p) \<le> tv_sec now"
  shows "fzsync_timeout_remaining p now =
     Inr (let whole = c_trunc (exec_time p) - (tv_sec now - tv_sec (exec_time_start p))
          in if 0 < whole then whole
             else if whole = 0 \<and> tv_nsec (exec_time_start p) < tv_nsec now then 1 else 0)"
  using assms by (simp add: fzsync_timeout_remaining_def Let_def)

text \<open>
  C2. In the second in which the whole seconds elapsed equal \<open>exec_time\<close>, the function
  compares the nanoseconds the wrong way round. With a budget of 150 s started at
  0 s + 0.5 s and the clock at 150 s + 0.1 s, 0.4 s of the budget are left and the
  function returns 0; with the budget started at 0 s + 0.1 s and the clock at
  150 s + 0.5 s, the budget is exceeded by 0.4 s and the function returns 1.
\<close>

theorem timeout_remaining_final_second:
  "fzsync_timeout_remaining pair_late \<lparr>tv_sec = 150, tv_nsec = 100000000\<rparr> = Inr 0
   \<and> budget_left pair_late \<lparr>tv_sec = 150, tv_nsec = 100000000\<rparr> = 2 / 5
   \<and> fzsync_timeout_remaining pair_early \<lparr>tv_sec = 150, tv_nsec = 500000000\<rparr> = Inr 1
   \<and> budget_left pair_early \<lparr>tv_sec = 150, tv_nsec = 500000000\<rparr> = - 2 / 5"
  by (simp add: fzsync_timeout_remaining_def budget_left_def pair_late_def pair_early_def
      pair_default_def pair_zero_def c_trunc_def fzsync_diff_ns_def)

subsection \<open>Cleanup\<close>

text \<open>
  C8. On a pair without thread B (\<open>thread_b = 0\<close>) \<open>fzsync_pair_cleanup\<close> returns 0 and
  leaves the pair as it is; and after any call, a second call returns 0 and leaves the
  pair as the first call left it, whatever \<open>pthread_join\<close> would return.
\<close>

theorem cleanup_idempotent:
  "(thread_b p = 0 \<longrightarrow> fzsync_pair_cleanup p j = (0, p))
   \<and> fzsync_pair_cleanup (snd (fzsync_pair_cleanup p j1)) j2
       = (0, snd (fzsync_pair_cleanup p j1))"
  by (simp add: fzsync_pair_cleanup_def Let_def)

theorem cleanup_idempotent_witness:
  "thread_b pair_zero = 0 \<and> fzsync_pair_cleanup pair_zero 7 = (0, pair_zero)
   \<and> fzsync_pair_cleanup (snd (fzsync_pair_cleanup (pair_zero\<lparr>thread_b := 5\<rparr>) 7)) 9
       = (0, pair_zero\<lparr>exit := 1\<rparr>)"
  using cleanup_idempotent [of pair_zero 7 7 9]
    cleanup_idempotent [of "pair_zero\<lparr>thread_b := 5\<rparr>" 7 7 9]
  by (simp add: pair_zero_def fzsync_pair_cleanup_def)

subsection \<open>Initialisation\<close>

lemma all_param:
  "(\<forall>x. P x) = (P P_avg_alpha \<and> P P_min_samples \<and> P P_max_dev_ratio \<and> P P_exec_time \<and> P P_exec_loops)"
  by (metis param.exhaust)

lemma ex_param:
  "(\<exists>x. P x) = (P P_avg_alpha \<or> P P_min_samples \<or> P P_max_dev_ratio \<or> P P_exec_time \<or> P P_exec_loops)"
  by (metis param.exhaust)

lemma chk_avg_alpha:
  "CHK (\<le>) P_avg_alpha v FLT_MIN 1 0.25 =
    (if v = 0 then Inr 0.25 else if \<not> FLT_MIN \<le> v then Inl (Assert_ge_low P_avg_alpha)
     else if \<not> v \<le> 1 then Inl (Assert_le_hi P_avg_alpha) else Inr v)"
  by (simp add: CHK_def Let_def FLT_MIN_def)

lemma chk_max_dev_ratio:
  "CHK (\<le>) P_max_dev_ratio v FLT_MIN 1 0.1 =
    (if v = 0 then Inr 0.1 else if \<not> FLT_MIN \<le> v then Inl (Assert_ge_low P_max_dev_ratio)
     else if \<not> v \<le> 1 then Inl (Assert_le_hi P_max_dev_ratio) else Inr v)"
  by (simp add: CHK_def Let_def FLT_MIN_def)

lemma chk_exec_time:
  "CHK (\<le>) P_exec_time v 1 FLT_MAX 150 =
    (if v = 0 then Inr 150 else if \<not> 1 \<le> v then Inl (Assert_ge_low P_exec_time)
     else if \<not> v \<le> FLT_MAX then Inl (Assert_le_hi P_exec_time) else Inr v)"
  by (simp add: CHK_def Let_def FLT_MAX_def)

lemma chk_min_samples:
  "CHK (\<le>s) P_min_samples v 20 INT_MAX 1024 =
    (if v = 0 then Inr 1024 else if \<not> 20 \<le>s v then Inl (Assert_ge_low P_min_samples) else Inr v)"
  by (simp add: CHK_def Let_def sle_INT_MAX)

lemma chk_exec_loops:
  "CHK (\<le>s) P_exec_loops v 20 INT_MAX 3000000 =
    (if v = 0 then Inr 3000000 else if \<not> 20 \<le>s v then Inl (Assert_ge_low P_exec_loops) else Inr v)"
  by (simp add: CHK_def Let_def sle_INT_MAX)

lemmas chk_simps = chk_avg_alpha chk_max_dev_ratio chk_exec_time chk_min_samples chk_exec_loops

lemma init_ok:
  assumes "\<forall>prm. \<not> out_of_range p prm"
  shows "fzsync_pair_init p =
       Inr (p\<lparr>avg_alpha := (if avg_alpha p = 0 then 0.25 else avg_alpha p),
              min_samples := (if min_samples p = 0 then 1024 else min_samples p),
              max_dev_ratio := (if max_dev_ratio p = 0 then 0.1 else max_dev_ratio p),
              exec_time := (if exec_time p = 0 then 150 else exec_time p),
              exec_loops := (if exec_loops p = 0 then 3000000 else exec_loops p)\<rparr>)"
  using assms unfolding all_param fzsync_pair_init_def chk_simps
  by (cases "avg_alpha p = 0"; cases "min_samples p = 0"; cases "max_dev_ratio p = 0";
      cases "exec_time p = 0"; cases "exec_loops p = 0"; simp)

lemma init_fatal:
  assumes "\<exists>prm. out_of_range p prm"
  shows "\<exists>prm. out_of_range p prm \<and>
           (fzsync_pair_init p = Inl (Assert_ge_low prm) \<or> fzsync_pair_init p = Inl (Assert_le_hi prm))"
proof -
  consider (a) "out_of_range p P_avg_alpha"
    | (b) "\<not> out_of_range p P_avg_alpha" "out_of_range p P_min_samples"
    | (c) "\<not> out_of_range p P_avg_alpha" "\<not> out_of_range p P_min_samples" "out_of_range p P_max_dev_ratio"
    | (d) "\<not> out_of_range p P_avg_alpha" "\<not> out_of_range p P_min_samples" "\<not> out_of_range p P_max_dev_ratio"
          "out_of_range p P_exec_time"
    | (e) "\<not> out_of_range p P_avg_alpha" "\<not> out_of_range p P_min_samples" "\<not> out_of_range p P_max_dev_ratio"
          "\<not> out_of_range p P_exec_time" "out_of_range p P_exec_loops"
    using assms unfolding ex_param by blast
  then show ?thesis
  proof cases
    case a
    then have "fzsync_pair_init p = Inl (Assert_ge_low P_avg_alpha) \<or> fzsync_pair_init p = Inl (Assert_le_hi P_avg_alpha)"
      unfolding fzsync_pair_init_def chk_simps by (auto simp: sle_INT_MAX)
    with a show ?thesis by blast
  next
    case b
    then have "fzsync_pair_init p = Inl (Assert_ge_low P_min_samples) \<or> fzsync_pair_init p = Inl (Assert_le_hi P_min_samples)"
      unfolding fzsync_pair_init_def chk_simps by (auto simp: sle_INT_MAX)
    with b show ?thesis by blast
  next
    case c
    then have "fzsync_pair_init p = Inl (Assert_ge_low P_max_dev_ratio) \<or> fzsync_pair_init p = Inl (Assert_le_hi P_max_dev_ratio)"
      unfolding fzsync_pair_init_def chk_simps by (auto simp: sle_INT_MAX)
    with c show ?thesis by blast
  next
    case d
    then have "fzsync_pair_init p = Inl (Assert_ge_low P_exec_time) \<or> fzsync_pair_init p = Inl (Assert_le_hi P_exec_time)"
      unfolding fzsync_pair_init_def chk_simps by (auto simp: sle_INT_MAX)
    with d show ?thesis by blast
  next
    case e
    then have "fzsync_pair_init p = Inl (Assert_ge_low P_exec_loops) \<or> fzsync_pair_init p = Inl (Assert_le_hi P_exec_loops)"
      unfolding fzsync_pair_init_def chk_simps by (auto simp: sle_INT_MAX)
    with e show ?thesis by blast
  qed
qed

text \<open>
  C9, as the code has it. The ranges asserted are \<open>[FLT_MIN, 1]\<close> for the decay rate and
  the stability ratio, \<open>[1, FLT_MAX]\<close> for the time budget and \<open>[20, INT_MAX]\<close> for the
  two counts. If no field is set and out of its range, \<open>fzsync_pair_init\<close> succeeds,
  every zero field takes its default (0.25, 1024, 0.1, 150, 3000000) and the others keep
  their value, so a configuration with all five fields set and in range is unchanged. If
  some field is set and out of its range, an assertion on such a field fails.
\<close>

theorem init_checks:
  "((\<forall>prm. \<not> out_of_range p prm) \<longrightarrow>
      fzsync_pair_init p =
       Inr (p\<lparr>avg_alpha := (if avg_alpha p = 0 then 0.25 else avg_alpha p),
              min_samples := (if min_samples p = 0 then 1024 else min_samples p),
              max_dev_ratio := (if max_dev_ratio p = 0 then 0.1 else max_dev_ratio p),
              exec_time := (if exec_time p = 0 then 150 else exec_time p),
              exec_loops := (if exec_loops p = 0 then 3000000 else exec_loops p)\<rparr>))
   \<and> ((\<forall>prm. \<not> out_of_range p prm) \<and> avg_alpha p \<noteq> 0 \<and> min_samples p \<noteq> 0
        \<and> max_dev_ratio p \<noteq> 0 \<and> exec_time p \<noteq> 0 \<and> exec_loops p \<noteq> 0
        \<longrightarrow> fzsync_pair_init p = Inr p)
   \<and> ((\<exists>prm. out_of_range p prm) \<longrightarrow>
        (\<exists>prm. out_of_range p prm \<and>
           (fzsync_pair_init p = Inl (Assert_ge_low prm)
            \<or> fzsync_pair_init p = Inl (Assert_le_hi prm))))"
  using init_ok [of p] init_fatal [of p] by auto

text \<open>
  The decay rate \<open>2^-127\<close>, a subnormal \<open>float\<close>, lies in \<open>(0, 1]\<close> and fails the
  assertion \<open>avg_alpha >= FLT_MIN\<close>.
\<close>

theorem init_subnormal_counterexample:
  "0 < avg_alpha (pair_default\<lparr>avg_alpha := 1 / 2 ^ 127\<rparr>)
   \<and> avg_alpha (pair_default\<lparr>avg_alpha := 1 / 2 ^ 127\<rparr>) \<le> 1
   \<and> fzsync_pair_init (pair_default\<lparr>avg_alpha := 1 / 2 ^ 127\<rparr>) = Inl (Assert_ge_low P_avg_alpha)"
proof -
  have "CHK (\<le>) P_avg_alpha (avg_alpha (pair_default\<lparr>avg_alpha := 1 / 2 ^ 127\<rparr>)) FLT_MIN 1 0.25
          = Inl (Assert_ge_low P_avg_alpha)"
    by (simp add: CHK_def FLT_MIN_def)
  then have "fzsync_pair_init (pair_default\<lparr>avg_alpha := 1 / 2 ^ 127\<rparr>) = Inl (Assert_ge_low P_avg_alpha)"
    unfolding fzsync_pair_init_def by (simp only: sum.case)
  then show ?thesis by simp
qed

theorem init_checks_witness:
  "(\<forall>prm. \<not> out_of_range pair_zero prm)
   \<and> fzsync_pair_init pair_zero = Inr pair_default
   \<and> (\<forall>prm. \<not> out_of_range pair_default prm)
   \<and> fzsync_pair_init pair_default = Inr pair_default
   \<and> (\<exists>prm. out_of_range (pair_default\<lparr>exec_loops := 5\<rparr>) prm)
   \<and> (\<exists>e. fzsync_pair_init (pair_default\<lparr>exec_loops := 5\<rparr>) = Inl e)"
proof -
  have z: "\<forall>prm. \<not> out_of_range pair_zero prm"
    unfolding all_param by (simp add: pair_zero_def)
  have d: "\<forall>prm. \<not> out_of_range pair_default prm"
    unfolding all_param
    by (simp add: pair_default_def pair_zero_def FLT_MIN_def FLT_MAX_def INT_MAX_def word_sle_eq)
  have o: "out_of_range (pair_default\<lparr>exec_loops := 5\<rparr>) P_exec_loops"
    by (simp add: word_sle_eq)
  then have e: "\<exists>prm. out_of_range (pair_default\<lparr>exec_loops := 5\<rparr>) prm" by blast
  have 1: "fzsync_pair_init pair_zero = Inr pair_default"
    using init_checks [of pair_zero] z by (simp add: pair_default_def pair_zero_def)
  have 2: "fzsync_pair_init pair_default = Inr pair_default"
    using init_checks [of pair_default] d by (simp add: pair_default_def pair_zero_def)
  have 3: "\<exists>e. fzsync_pair_init (pair_default\<lparr>exec_loops := 5\<rparr>) = Inl e"
    using init_checks [of "pair_default\<lparr>exec_loops := 5\<rparr>"] e by blast
  show ?thesis using z d e 1 2 3 by blast
qed

subsection \<open>Reset\<close>

lemma reset_fields:
  "snd (fzsync_pair_reset p run_b env) =
     p\<lparr>diff_ss := fzsync_init_stat (diff_ss p),
       diff_sa := fzsync_init_stat (diff_sa p),
       diff_sb := fzsync_init_stat (diff_sb p),
       diff_ab := fzsync_init_stat (diff_ab p),
       spins_avg := fzsync_init_stat (spins_avg p),
       delay := 0, sampling := min_samples p, exec_loop := 0,
       a_cntr := 0, b_cntr := 0, exit := 0,
       thread_b := (if run_b then created_thread env else 0),
       exec_time_start := (if run_b \<and> create_status env \<noteq> 0 then exec_time_start p else time_now env)\<rparr>"
  by (simp add: fzsync_pair_reset_def fzsync_pair_cleanup_def Let_def)

text \<open>
  C10, as the code has it. \<open>fzsync_pair_reset\<close> zeroes \<open>avg\<close> and \<open>avg_dev\<close> of the five
  statistics and leaves their \<open>dev_ratio\<close> as it was (\<open>fzsync_init_stat\<close> zeroes "some
  stat fields"); it zeroes the delay, the iteration counter, both rendezvous counters and
  the exit flag, sets \<open>sampling\<close> to \<open>min_samples\<close>, and leaves \<open>delay_bias\<close> and the five
  configuration fields unchanged. This holds whether or not thread B is started and
  whatever the pthread calls return.
\<close>

theorem reset_effect:
  "(let p' = snd (fzsync_pair_reset p run_b env)
    in avg (diff_ss p') = 0 \<and> avg_dev (diff_ss p') = 0 \<and> dev_ratio (diff_ss p') = dev_ratio (diff_ss p)
     \<and> avg (diff_sa p') = 0 \<and> avg_dev (diff_sa p') = 0 \<and> dev_ratio (diff_sa p') = dev_ratio (diff_sa p)
     \<and> avg (diff_sb p') = 0 \<and> avg_dev (diff_sb p') = 0 \<and> dev_ratio (diff_sb p') = dev_ratio (diff_sb p)
     \<and> avg (diff_ab p') = 0 \<and> avg_dev (diff_ab p') = 0 \<and> dev_ratio (diff_ab p') = dev_ratio (diff_ab p)
     \<and> avg (spins_avg p') = 0 \<and> avg_dev (spins_avg p') = 0
     \<and> dev_ratio (spins_avg p') = dev_ratio (spins_avg p)
     \<and> delay p' = 0 \<and> exec_loop p' = 0 \<and> a_cntr p' = 0 \<and> b_cntr p' = 0 \<and> exit p' = 0
     \<and> sampling p' = min_samples p
     \<and> delay_bias p' = delay_bias p
     \<and> avg_alpha p' = avg_alpha p \<and> min_samples p' = min_samples p
     \<and> max_dev_ratio p' = max_dev_ratio p \<and> exec_time p' = exec_time p
     \<and> exec_loops p' = exec_loops p)"
  unfolding reset_fields Let_def by (simp add: fzsync_init_stat_def)

text \<open>A statistic with \<open>dev_ratio = 1/2\<close> still has it after the reset.\<close>

theorem reset_dev_ratio_counterexample:
  "diff_ss (snd (fzsync_pair_reset
       (pair_default\<lparr>diff_ss := \<lparr>avg = 2, avg_dev = 1, dev_ratio = 1/2\<rparr>\<rparr>) False env_zero))
     = \<lparr>avg = 0, avg_dev = 0, dev_ratio = 1/2\<rparr>
   \<and> dev_ratio (diff_ss (snd (fzsync_pair_reset
       (pair_default\<lparr>diff_ss := \<lparr>avg = 2, avg_dev = 1, dev_ratio = 1/2\<rparr>\<rparr>) False env_zero))) \<noteq> 0"
  unfolding reset_fields by (simp add: fzsync_init_stat_def)

subsection \<open>The update, branch by branch\<close>

lemma over_max_dev_cong:
  "stats_of q = stats_of p \<Longrightarrow> max_dev_ratio q = max_dev_ratio p \<Longrightarrow> over_max_dev q = over_max_dev p"
  by (simp add: over_max_dev_def stats_of_def)

lemma upd_samples_frame [simp]:
  "sampling (upd_samples p) = sampling p"
  "delay (upd_samples p) = delay p"
  "delay_bias (upd_samples p) = delay_bias p"
  "max_dev_ratio (upd_samples p) = max_dev_ratio p"
  by (simp_all add: upd_samples_def Let_def)

lemma update_sampling:
  assumes "0 <s sampling p"
  shows "fzsync_pair_update p r =
     ((upd_samples (p\<lparr>delay := delay_bias p\<rparr>))\<lparr>sampling := sampling p - 1, spins := 0\<rparr>,
      if sampling p - 1 = 0 then [Minimum_sampling_period_ended, Pair_info] else [])"
  using assms by (simp add: fzsync_pair_update_def Let_def)

lemma update_over:
  assumes "\<not> 0 <s sampling p" and "over_max_dev p"
  shows "fzsync_pair_update p r = ((upd_samples (p\<lparr>delay := delay_bias p\<rparr>))\<lparr>spins := 0\<rparr>, [])"
proof -
  have "over_max_dev (p\<lparr>delay := delay_bias p\<rparr>)" using assms(2) by (simp add: over_max_dev_def)
  then show ?thesis using assms(1) by (simp add: fzsync_pair_update_def Let_def)
qed

lemma update_frozen:
  assumes "\<not> 0 <s sampling p" and "\<not> over_max_dev p"
  shows "fzsync_pair_update p r =
     (p\<lparr>delay := (if 1 \<le> \<bar>avg (diff_ab p)\<bar>
                   then delay_bias p + word_of_int (c_trunc (1.1 * time_delay p r / per_spin_time p))
                   else delay_bias p),
        sampling := (if sampling p = 0 then - 1 else sampling p),
        spins := 0\<rparr>,
      if sampling p = 0
      then (if 1 \<le> \<bar>avg (diff_ab p)\<bar>
            then [Reached_deviation_ratios, Delay_range_is, Pair_info]
            else [Cant_calculate_random_delay, Pair_info])
      else [])"
proof -
  have "\<not> over_max_dev (p\<lparr>delay := delay_bias p\<rparr>)" using assms(2) by (simp add: over_max_dev_def)
  then show ?thesis using assms(1)
    by (simp add: fzsync_pair_update_def Let_def per_spin_time_def time_delay_def)
qed

lemma update_sampling_delay:
  "0 <s sampling p \<Longrightarrow> delay (fst (fzsync_pair_update p r)) = delay_bias p"
  by (simp add: fzsync_pair_update_def Let_def upd_samples_def)

lemma update_keeps_not_sampling:
  "\<not> 0 <s sampling p \<Longrightarrow> \<not> 0 <s sampling (fst (fzsync_pair_update p r))"
  by (cases "over_max_dev p") (simp_all add: update_over update_frozen)

lemma update_frame [simp]:
  "delay_bias (fst (fzsync_pair_update p r)) = delay_bias p"
  "max_dev_ratio (fst (fzsync_pair_update p r)) = max_dev_ratio p"
  by (cases "0 <s sampling p"; cases "over_max_dev p";
      simp add: update_sampling update_over update_frozen)+

lemma update_exec_frame [simp]:
  "exec_loop (fst (fzsync_pair_update p r)) = exec_loop p"
  "exec_loops (fst (fzsync_pair_update p r)) = exec_loops p"
  "exec_time (fst (fzsync_pair_update p r)) = exec_time p"
  "exec_time_start (fst (fzsync_pair_update p r)) = exec_time_start p"
  by (cases "0 <s sampling p"; cases "over_max_dev p";
      simp add: update_sampling update_over update_frozen upd_samples_def Let_def)+

lemma update_frozen_keeps:
  assumes "\<not> 0 <s sampling p" and "\<not> over_max_dev p"
  shows "stats_of (fst (fzsync_pair_update p r)) = stats_of p"
    and "sampling (fst (fzsync_pair_update p r)) \<noteq> 0"
    and "\<not> 0 <s sampling (fst (fzsync_pair_update p r))"
    and "\<not> over_max_dev (fst (fzsync_pair_update p r))"
    and "sampling p \<noteq> 0 \<Longrightarrow> snd (fzsync_pair_update p r) = []"
  using assms by (simp_all add: update_frozen stats_of_def over_max_dev_def)

lemma update_transitions:
  "length (filter is_transition (snd (fzsync_pair_update p r))) \<le> 1"
  by (cases "0 <s sampling p"; cases "over_max_dev p";
      simp add: update_sampling update_over update_frozen)

lemma update_no_transition:
  "0 <s sampling p \<or> over_max_dev p \<Longrightarrow> filter is_transition (snd (fzsync_pair_update p r)) = []"
  by (cases "0 <s sampling p") (auto simp: update_sampling update_over)

subsection \<open>The steps of thread A\<close>

lemma wait_a_eq:
  "fzsync_wait_a p rv =
     p\<lparr>a_cntr := our_seen rv, b_cntr := (if b_cntr p + 1 = INT_MAX then 0 else b_cntr p + 1)\<rparr>"
  by (simp add: fzsync_wait_a_def pair_wait_returned_def Let_def)

lemma end_race_a_eq:
  "fzsync_end_race_a p now rv =
     p\<lparr>a_end := now, a_cntr := our_seen rv,
       b_cntr := (if b_cntr p + 1 = INT_MAX then 0 else b_cntr p + 1),
       spins := spins p + spun rv\<rparr>"
  by (simp add: fzsync_end_race_a_def pair_wait_returned_def Let_def)

lemma add_bias_not_sampling: "\<not> 0 <s sampling p \<Longrightarrow> foldl fzsync_pair_add_bias p cs = p"
  by (induction cs) (simp_all add: fzsync_pair_add_bias_def)

lemma add_bias_frame [simp]:
  "sampling (fzsync_pair_add_bias p c) = sampling p"
  "diff_ss (fzsync_pair_add_bias p c) = diff_ss p"
  "diff_sa (fzsync_pair_add_bias p c) = diff_sa p"
  "diff_sb (fzsync_pair_add_bias p c) = diff_sb p"
  "diff_ab (fzsync_pair_add_bias p c) = diff_ab p"
  "spins_avg (fzsync_pair_add_bias p c) = spins_avg p"
  "max_dev_ratio (fzsync_pair_add_bias p c) = max_dev_ratio p"
  "exec_loop (fzsync_pair_add_bias p c) = exec_loop p"
  "exec_loops (fzsync_pair_add_bias p c) = exec_loops p"
  "exec_time (fzsync_pair_add_bias p c) = exec_time p"
  "exec_time_start (fzsync_pair_add_bias p c) = exec_time_start p"
  by (simp_all add: fzsync_pair_add_bias_def)

lemma add_bias_fold_frame [simp]:
  "sampling (foldl fzsync_pair_add_bias p cs) = sampling p"
  "diff_ss (foldl fzsync_pair_add_bias p cs) = diff_ss p"
  "diff_sa (foldl fzsync_pair_add_bias p cs) = diff_sa p"
  "diff_sb (foldl fzsync_pair_add_bias p cs) = diff_sb p"
  "diff_ab (foldl fzsync_pair_add_bias p cs) = diff_ab p"
  "spins_avg (foldl fzsync_pair_add_bias p cs) = spins_avg p"
  "max_dev_ratio (foldl fzsync_pair_add_bias p cs) = max_dev_ratio p"
  "exec_loop (foldl fzsync_pair_add_bias p cs) = exec_loop p"
  "exec_loops (foldl fzsync_pair_add_bias p cs) = exec_loops p"
  "exec_time (foldl fzsync_pair_add_bias p cs) = exec_time p"
  "exec_time_start (foldl fzsync_pair_add_bias p cs) = exec_time_start p"
  by (induction cs arbitrary: p) simp_all

lemma body_out:
  "snd (race_body_a p e) = snd (fzsync_pair_update (foldl fzsync_pair_add_bias p (bias_before e)) (drand e))"
  by (simp add: race_body_a_def fzsync_start_race_a_def Let_def)

lemma body_frozen:
  assumes "\<not> 0 <s sampling p" and "\<not> over_max_dev p"
  shows "stats_of (fst (race_body_a p e)) = stats_of p"
    and "sampling (fst (race_body_a p e)) \<noteq> 0"
    and "\<not> 0 <s sampling (fst (race_body_a p e))"
    and "\<not> over_max_dev (fst (race_body_a p e))"
    and "max_dev_ratio (fst (race_body_a p e)) = max_dev_ratio p"
    and "sampling p \<noteq> 0 \<Longrightarrow> snd (race_body_a p e) = []"
proof -
  let ?p1 = "foldl fzsync_pair_add_bias p (bias_before e)"
  have p1: "\<not> 0 <s sampling ?p1" "\<not> over_max_dev ?p1"
    using assms over_max_dev_cong [of ?p1 p] by (simp_all add: stats_of_def)
  note u = update_frozen_keeps [OF p1, of "drand e"]
  let ?q = "fst (fzsync_pair_update ?p1 (drand e))"
  have body: "fst (race_body_a p e) =
      foldl fzsync_pair_add_bias
        (thread_b_wrote (fzsync_end_race_a ((fzsync_wait_a ?q (rv_start e))\<lparr>a_start := clock_start e\<rparr>)
           (clock_end e) (rv_end e)) (b_wrote e)) (bias_after e)"
    and out: "snd (race_body_a p e) = snd (fzsync_pair_update ?p1 (drand e))"
    by (simp_all add: race_body_a_def fzsync_start_race_a_def Let_def)
  show s: "stats_of (fst (race_body_a p e)) = stats_of p"
    unfolding body using u(1)
    by (simp add: thread_b_wrote_def end_race_a_eq wait_a_eq stats_of_def)
  show "sampling (fst (race_body_a p e)) \<noteq> 0" and "\<not> 0 <s sampling (fst (race_body_a p e))"
    unfolding body using u(2,3)
    by (simp_all add: thread_b_wrote_def end_race_a_eq wait_a_eq)
  show m: "max_dev_ratio (fst (race_body_a p e)) = max_dev_ratio p"
    unfolding body by (simp add: thread_b_wrote_def end_race_a_eq wait_a_eq)
  show "\<not> over_max_dev (fst (race_body_a p e))"
    using over_max_dev_cong [OF s m] assms(2) by simp
  show "sampling p \<noteq> 0 \<Longrightarrow> snd (race_body_a p e) = []"
    unfolding out using u(5) by simp
qed

lemma body_keeps_not_sampling:
  assumes "\<not> 0 <s sampling p"
  shows "\<not> 0 <s sampling (fst (race_body_a p e))"
proof -
  have "\<not> 0 <s sampling (fst (fzsync_pair_update (foldl fzsync_pair_add_bias p (bias_before e)) (drand e)))"
    using assms by (intro update_keeps_not_sampling) simp
  then show ?thesis
    by (simp add: race_body_a_def fzsync_start_race_a_def Let_def thread_b_wrote_def end_race_a_eq wait_a_eq)
qed

lemma no_bias_fields [simp]:
  "clock_run (no_bias e) = clock_run e" "rv_run (no_bias e) = rv_run e" "join_run (no_bias e) = join_run e"
  by (simp_all add: no_bias_def)

lemma body_no_bias:
  assumes "\<not> 0 <s sampling p"
  shows "race_body_a p (no_bias e) = race_body_a p e"
proof -
  have 1: "foldl fzsync_pair_add_bias p (bias_before e) = p"
    using assms by (rule add_bias_not_sampling)
  let ?q = "fst (fzsync_pair_update p (drand e))"
  have "\<not> 0 <s sampling ?q" using assms by (rule update_keeps_not_sampling)
  then have "\<not> 0 <s sampling (thread_b_wrote (fzsync_end_race_a
       ((fzsync_wait_a ?q (rv_start e))\<lparr>a_start := clock_start e\<rparr>) (clock_end e) (rv_end e)) (b_wrote e))"
    by (simp add: thread_b_wrote_def end_race_a_eq wait_a_eq)
  then show ?thesis
    using 1 by (simp add: race_body_a_def no_bias_def fzsync_start_race_a_def Let_def add_bias_not_sampling)
qed

lemma body_exec_frame [simp]:
  "exec_loop (fst (race_body_a p e)) = exec_loop p"
  "exec_loops (fst (race_body_a p e)) = exec_loops p"
  "exec_time (fst (race_body_a p e)) = exec_time p"
  "exec_time_start (fst (race_body_a p e)) = exec_time_start p"
  by (simp_all add: race_body_a_def fzsync_start_race_a_def Let_def thread_b_wrote_def
      end_race_a_eq wait_a_eq)

lemma timeout_remaining_cong:
  "exec_time q = exec_time p \<Longrightarrow> exec_time_start q = exec_time_start p \<Longrightarrow>
   fzsync_timeout_remaining q now = fzsync_timeout_remaining p now"
  by (simp add: fzsync_timeout_remaining_def Let_def)

lemma budget_lasts_cong:
  "exec_time q = exec_time p \<Longrightarrow> exec_time_start q = exec_time_start p \<Longrightarrow>
   budget_lasts q es = budget_lasts p es"
  by (simp add: budget_lasts_def timeout_remaining_cong [of q p])

lemma run_a_total:
  "fzsync_timeout_remaining p now = Inr t \<Longrightarrow> \<exists>go q out. fzsync_run_a p now rv j = Inr (go, q, out)"
  by (simp add: fzsync_run_a_def Let_def)

lemma run_a_result:
  assumes "fzsync_run_a p now rv j = Inr (go, q, out)"
  shows "diff_ss q = diff_ss p \<and> diff_sa q = diff_sa p \<and> diff_sb q = diff_sb p
     \<and> diff_ab q = diff_ab p \<and> spins_avg q = spins_avg p
     \<and> max_dev_ratio q = max_dev_ratio p
     \<and> exec_loops q = exec_loops p \<and> exec_loop q = exec_loop p + 1
     \<and> exec_time q = exec_time p \<and> exec_time_start q = exec_time_start p
     \<and> (sampling q = sampling p \<or> 0 <s sampling p \<and> sampling q = 0)
     \<and> filter is_transition out = []
     \<and> (go = 0 \<or> go = 1)
     \<and> (go = 0 \<longleftrightarrow> fzsync_timeout_remaining p now = Inr 0 \<or> exec_loops p <s exec_loop p + 1)"
  using assms
  by (auto simp: fzsync_run_a_def Let_def wait_a_eq fzsync_pair_cleanup_def
      split: sum.splits if_splits)

lemma loop_a_Cons:
  "loop_a p (e # es) = Inr (st, n, p', out) \<Longrightarrow>
    (\<exists>go p1 out1. fzsync_run_a p (clock_run e) (rv_run e) (join_run e) = Inr (go, p1, out1) \<and>
       (if go = 0 then st \<and> n = 0 \<and> p' = p1 \<and> out = out1
        else \<exists>m out3. loop_a (fst (race_body_a p1 e)) es = Inr (st, m, p', out3)
               \<and> n = Suc m \<and> out = out1 @ snd (race_body_a p1 e) @ out3))"
  by (auto simp: Let_def split: sum.splits if_splits prod.splits)

subsection \<open>The bias\<close>

lemma loop_no_bias:
  assumes "\<not> 0 <s sampling p"
  shows "loop_a p (map no_bias es) = loop_a p es"
  using assms
proof (induction es arbitrary: p)
  case Nil
  show ?case by simp
next
  case (Cons e es)
  show ?case
  proof (cases "fzsync_run_a p (clock_run e) (rv_run e) (join_run e)")
    case (Inl err)
    then show ?thesis by simp
  next
    case (Inr res)
    obtain go p1 out1 where res: "res = (go, p1, out1)" by (cases res)
    have "sampling p1 = sampling p"
      using run_a_result [OF Inr [unfolded res]] Cons.prems by auto
    then have ns: "\<not> 0 <s sampling p1" using Cons.prems by simp
    have "loop_a (fst (race_body_a p1 e)) (map no_bias es) = loop_a (fst (race_body_a p1 e)) es"
      using body_keeps_not_sampling [OF ns] by (rule Cons.IH)
    then show ?thesis
      using Inr res body_no_bias [OF ns, of e] by simp
  qed
qed

text \<open>
  C3. \<open>fzsync_pair_add_bias\<close> has an effect exactly while the counter of mandatory
  samples, \<open>sampling\<close>, is positive: then it adds the change to \<open>delay_bias\<close> and the next
  \<open>fzsync_pair_update\<close> stores the new bias as the delay. Once the counter is not
  positive (converged or no delay available, and also while the statistics still take
  samples because a ratio is over the maximum), any sequence of calls leaves the pair as
  it is, and a run of the loop of thread A gives the same result, delays included, with
  the caller's bias changes as without them.
\<close>

theorem add_bias_only_while_sampling:
  "(0 <s sampling p \<longrightarrow>
      delay_bias (fzsync_pair_add_bias p c) = delay_bias p + c
      \<and> delay (fst (fzsync_pair_update (fzsync_pair_add_bias p c) r)) = delay_bias p + c)
   \<and> (\<not> 0 <s sampling p \<longrightarrow>
        foldl fzsync_pair_add_bias p cs = p
        \<and> loop_a p (map no_bias es) = loop_a p es)"
proof -
  have "0 <s sampling p \<Longrightarrow> 0 <s sampling (fzsync_pair_add_bias p c)" by simp
  then have "0 <s sampling p \<Longrightarrow>
      delay (fst (fzsync_pair_update (fzsync_pair_add_bias p c) r))
        = delay_bias (fzsync_pair_add_bias p c)"
    by (rule update_sampling_delay)
  moreover have "0 <s sampling p \<Longrightarrow> delay_bias (fzsync_pair_add_bias p c) = delay_bias p + c"
    by (simp add: fzsync_pair_add_bias_def)
  ultimately show ?thesis
    using add_bias_not_sampling [of p cs] loop_no_bias [of p es] by simp
qed

text \<open>
  A pair can still be sampling with the counter at 0: in \<open>pair_noisy\<close> a ratio is over the
  maximum, so \<open>fzsync_pair_update\<close> takes the samples and announces nothing, and the
  counter stays 0. There \<open>fzsync_pair_add_bias\<close> does not add the change.
\<close>

theorem add_bias_still_sampling_counterexample:
  "sampling pair_noisy = 0
   \<and> over_max_dev pair_noisy
   \<and> fzsync_pair_update pair_noisy 0
        = ((upd_samples (pair_noisy\<lparr>delay := delay_bias pair_noisy\<rparr>))\<lparr>spins := 0\<rparr>, [])
   \<and> sampling (fst (fzsync_pair_update pair_noisy 0)) = 0
   \<and> fzsync_pair_add_bias pair_noisy 4 = pair_noisy
   \<and> delay_bias (fzsync_pair_add_bias pair_noisy 4) \<noteq> delay_bias pair_noisy + 4"
proof -
  have s: "sampling pair_noisy = 0"
    by (simp add: pair_noisy_def pair_default_def pair_zero_def)
  have o: "over_max_dev pair_noisy"
    by (simp add: over_max_dev_def pair_noisy_def pair_default_def pair_zero_def)
  have n: "\<not> 0 <s sampling pair_noisy" unfolding s by simp
  have u: "fzsync_pair_update pair_noisy 0
        = ((upd_samples (pair_noisy\<lparr>delay := delay_bias pair_noisy\<rparr>))\<lparr>spins := 0\<rparr>, [])"
    using n o by (rule update_over)
  have k: "sampling (fst (fzsync_pair_update pair_noisy 0)) = 0"
    unfolding u using s by simp
  have b: "fzsync_pair_add_bias pair_noisy 4 = pair_noisy"
    using n by (simp add: fzsync_pair_add_bias_def)
  have d: "delay_bias (fzsync_pair_add_bias pair_noisy 4) \<noteq> delay_bias pair_noisy + 4"
    unfolding b by simp
  show ?thesis using s o u k b d by (intro conjI)
qed

theorem add_bias_only_while_sampling_witness:
  "0 <s sampling (pair_default\<lparr>sampling := 5, delay_bias := 3\<rparr>)
   \<and> delay_bias (fzsync_pair_add_bias (pair_default\<lparr>sampling := 5, delay_bias := 3\<rparr>) 4) = 7
   \<and> delay (fst (fzsync_pair_update
        (fzsync_pair_add_bias (pair_default\<lparr>sampling := 5, delay_bias := 3\<rparr>) 4) 0)) = 7
   \<and> \<not> 0 <s sampling pair_converged
   \<and> foldl fzsync_pair_add_bias pair_converged [4, - 9] = pair_converged
   \<and> loop_a pair_converged (map no_bias [env_iter_zero\<lparr>bias_before := [4], bias_after := [- 9]\<rparr>])
       = loop_a pair_converged [env_iter_zero\<lparr>bias_before := [4], bias_after := [- 9]\<rparr>]"
proof -
  have s: "0 <s sampling (pair_default\<lparr>sampling := 5, delay_bias := 3\<rparr>)"
    by (simp add: word_sless_alt)
  have n: "\<not> 0 <s sampling pair_converged"
    by (simp add: pair_converged_def)
  show ?thesis
    using s n
      add_bias_only_while_sampling [of "pair_default\<lparr>sampling := 5, delay_bias := 3\<rparr>" 4 0]
      add_bias_only_while_sampling [of pair_converged _ _ "[4, - 9]"
        "[env_iter_zero\<lparr>bias_before := [4], bias_after := [- 9]\<rparr>]"]
    by simp
qed

subsection \<open>Convergence\<close>

lemma loop_frozen:
  assumes "\<not> 0 <s sampling p" and "\<not> over_max_dev p"
    and "loop_a p es = Inr (st, n, p', out)"
  shows "stats_of p' = stats_of p \<and> \<not> 0 <s sampling p' \<and> \<not> over_max_dev p'
     \<and> (sampling p \<noteq> 0 \<longrightarrow> filter is_transition out = [])"
  using assms
proof (induction es arbitrary: p st n p' out)
  case Nil
  then show ?case by simp
next
  case (Cons e es)
  from loop_a_Cons [OF Cons.prems(3)] obtain go p1 out1 where
    r: "fzsync_run_a p (clock_run e) (rv_run e) (join_run e) = Inr (go, p1, out1)"
    and c: "if go = 0 then st \<and> n = 0 \<and> p' = p1 \<and> out = out1
        else \<exists>m out3. loop_a (fst (race_body_a p1 e)) es = Inr (st, m, p', out3)
               \<and> n = Suc m \<and> out = out1 @ snd (race_body_a p1 e) @ out3"
    by blast
  note f = run_a_result [OF r]
  have s1: "stats_of p1 = stats_of p" and m1: "max_dev_ratio p1 = max_dev_ratio p"
    and sa1: "sampling p1 = sampling p" and t1: "filter is_transition out1 = []"
    using f Cons.prems(1) by (simp_all add: stats_of_def)
  have fr1: "\<not> 0 <s sampling p1" "\<not> over_max_dev p1"
    using Cons.prems(1,2) sa1 over_max_dev_cong [OF s1 m1] by simp_all
  show ?case
  proof (cases "go = 0")
    case True
    then show ?thesis using c s1 fr1 t1 by simp
  next
    case False
    then obtain m out3 where
      l: "loop_a (fst (race_body_a p1 e)) es = Inr (st, m, p', out3)"
      and o: "out = out1 @ snd (race_body_a p1 e) @ out3"
      using c by auto
    note b = body_frozen [OF fr1, of e]
    note ih = Cons.IH [OF b(3) b(4) l]
    show ?thesis using ih b(1) b(2) b(6) s1 sa1 t1 o by simp
  qed
qed

lemma loop_transitions_once:
  assumes "loop_a p es = Inr (st, n, p', out)"
  shows "length (filter is_transition out) \<le> 1"
  using assms
proof (induction es arbitrary: p st n p' out)
  case Nil
  then show ?case by simp
next
  case (Cons e es)
  from loop_a_Cons [OF Cons.prems(1)] obtain go p1 out1 where
    r: "fzsync_run_a p (clock_run e) (rv_run e) (join_run e) = Inr (go, p1, out1)"
    and c: "if go = 0 then st \<and> n = 0 \<and> p' = p1 \<and> out = out1
        else \<exists>m out3. loop_a (fst (race_body_a p1 e)) es = Inr (st, m, p', out3)
               \<and> n = Suc m \<and> out = out1 @ snd (race_body_a p1 e) @ out3"
    by blast
  have t1: "filter is_transition out1 = []" using run_a_result [OF r] by simp
  show ?case
  proof (cases "go = 0")
    case True
    then show ?thesis using c t1 by simp
  next
    case False
    then obtain m out3 where
      l: "loop_a (fst (race_body_a p1 e)) es = Inr (st, m, p', out3)"
      and o: "out = out1 @ snd (race_body_a p1 e) @ out3"
      using c by auto
    show ?thesis
    proof (cases "filter is_transition (snd (race_body_a p1 e)) = []")
      case True
      then show ?thesis using Cons.IH [OF l] o t1 by simp
    next
      case tr: False
      let ?q = "foldl fzsync_pair_add_bias p1 (bias_before e)"
      have fq: "\<not> 0 <s sampling ?q" "\<not> over_max_dev ?q"
        using tr update_no_transition [of ?q "drand e"] unfolding body_out by auto
      have fr1: "\<not> 0 <s sampling p1" "\<not> over_max_dev p1"
        using fq over_max_dev_cong [of ?q p1] by (simp_all add: stats_of_def)
      note b = body_frozen [OF fr1, of e]
      have "filter is_transition out3 = []"
        using loop_frozen [OF b(3) b(4) l] b(2) by simp
      then show ?thesis
        using o t1 update_transitions [of ?q "drand e"] unfolding body_out by simp
    qed
  qed
qed

text \<open>
  C4, as the code has it. On a call of \<open>fzsync_pair_update\<close> with the sampling counter at
  zero and no ratio over the maximum, the statistics are left alone, the counter becomes
  -1, and the call announces convergence if the end-skew average is at least 1 in
  absolute value and otherwise that no delay can be calculated. Convergence is announced
  by no other call. In a run of the loop of thread A at most one call announces the end of
  sampling, and from a state where the counter is not positive and no ratio is over the
  maximum, no later step of the run changes any of the five statistics.
\<close>

theorem converged_once:
  "(sampling p = 0 \<and> \<not> over_max_dev p \<longrightarrow>
      sampling (fst (fzsync_pair_update p r)) = - 1
      \<and> stats_of (fst (fzsync_pair_update p r)) = stats_of p
      \<and> snd (fzsync_pair_update p r) =
          (if 1 \<le> \<bar>avg (diff_ab p)\<bar>
           then [Reached_deviation_ratios, Delay_range_is, Pair_info]
           else [Cant_calculate_random_delay, Pair_info]))
   \<and> (Reached_deviation_ratios \<in> set (snd (fzsync_pair_update p r)) \<longrightarrow>
        sampling p = 0 \<and> \<not> over_max_dev p \<and> 1 \<le> \<bar>avg (diff_ab p)\<bar>)
   \<and> (loop_a p es = Inr (stopped, n, p', out) \<longrightarrow> length (filter is_transition out) \<le> 1)
   \<and> (\<not> 0 <s sampling p \<and> \<not> over_max_dev p \<longrightarrow>
        stats_of (fst (fzsync_pair_update p r)) = stats_of p
        \<and> stats_of (fst (race_body_a p e)) = stats_of p
        \<and> \<not> 0 <s sampling (fst (race_body_a p e))
        \<and> sampling (fst (race_body_a p e)) \<noteq> 0
        \<and> \<not> over_max_dev (fst (race_body_a p e)))
   \<and> (\<not> 0 <s sampling p \<and> \<not> over_max_dev p \<and> loop_a p es = Inr (stopped, n, p', out) \<longrightarrow>
        stats_of p' = stats_of p
        \<and> (sampling p \<noteq> 0 \<longrightarrow> filter is_transition out = []))"
proof -
  have a: "sampling p = 0 \<and> \<not> over_max_dev p \<longrightarrow>
      sampling (fst (fzsync_pair_update p r)) = - 1
      \<and> stats_of (fst (fzsync_pair_update p r)) = stats_of p
      \<and> snd (fzsync_pair_update p r) =
          (if 1 \<le> \<bar>avg (diff_ab p)\<bar>
           then [Reached_deviation_ratios, Delay_range_is, Pair_info]
           else [Cant_calculate_random_delay, Pair_info])"
    by (simp add: update_frozen stats_of_def)
  have b: "Reached_deviation_ratios \<in> set (snd (fzsync_pair_update p r)) \<longrightarrow>
        sampling p = 0 \<and> \<not> over_max_dev p \<and> 1 \<le> \<bar>avg (diff_ab p)\<bar>"
    by (cases "0 <s sampling p"; cases "over_max_dev p")
      (auto simp: update_sampling update_over update_frozen split: if_splits)
  have c: "loop_a p es = Inr (stopped, n, p', out) \<longrightarrow> length (filter is_transition out) \<le> 1"
    using loop_transitions_once by blast
  have d: "\<not> 0 <s sampling p \<and> \<not> over_max_dev p \<longrightarrow>
        stats_of (fst (fzsync_pair_update p r)) = stats_of p
        \<and> stats_of (fst (race_body_a p e)) = stats_of p
        \<and> \<not> 0 <s sampling (fst (race_body_a p e))
        \<and> sampling (fst (race_body_a p e)) \<noteq> 0
        \<and> \<not> over_max_dev (fst (race_body_a p e))"
    using update_frozen_keeps(1) [of p r] body_frozen [of p e] by blast
  have e: "\<not> 0 <s sampling p \<and> \<not> over_max_dev p \<and> loop_a p es = Inr (stopped, n, p', out) \<longrightarrow>
        stats_of p' = stats_of p
        \<and> (sampling p \<noteq> 0 \<longrightarrow> filter is_transition out = [])"
    using loop_frozen [of p es stopped n p' out] by blast
  show ?thesis using a b c d e by blast
qed

text \<open>
  With the default configuration, the counter at zero and all statistics zero, no ratio
  is over the maximum and the call announces that no delay can be calculated, not
  convergence.
\<close>

theorem update_delay_unavailable_counterexample:
  "sampling (pair_default\<lparr>sampling := 0\<rparr>) = 0
   \<and> \<not> over_max_dev (pair_default\<lparr>sampling := 0\<rparr>)
   \<and> snd (fzsync_pair_update (pair_default\<lparr>sampling := 0\<rparr>) 0)
       = [Cant_calculate_random_delay, Pair_info]
   \<and> sampling (fst (fzsync_pair_update (pair_default\<lparr>sampling := 0\<rparr>) 0)) = - 1"
proof -
  have o: "\<not> over_max_dev (pair_default\<lparr>sampling := 0\<rparr>)"
    by (simp add: over_max_dev_def pair_default_def pair_zero_def)
  have s: "\<not> 0 <s sampling (pair_default\<lparr>sampling := 0\<rparr>)" by simp
  show ?thesis
    using o by (simp add: update_frozen [OF s o]) (simp add: pair_default_def pair_zero_def)
qed

theorem converged_once_witness:
  "sampling (pair_converged\<lparr>sampling := 0\<rparr>) = 0
   \<and> \<not> over_max_dev (pair_converged\<lparr>sampling := 0\<rparr>)
   \<and> snd (fzsync_pair_update (pair_converged\<lparr>sampling := 0\<rparr>) (1/2))
       = [Reached_deviation_ratios, Delay_range_is, Pair_info]
   \<and> sampling (fst (fzsync_pair_update (pair_converged\<lparr>sampling := 0\<rparr>) (1/2))) = - 1
   \<and> stats_of (fst (fzsync_pair_update (pair_converged\<lparr>sampling := 0\<rparr>) (1/2)))
       = stats_of (pair_converged\<lparr>sampling := 0\<rparr>)
   \<and> loop_a pair_converged [] = Inr (False, 0, pair_converged, [])
   \<and> stats_of (fst (race_body_a pair_converged env_iter_zero)) = stats_of pair_converged"
proof -
  have o: "\<not> over_max_dev (pair_converged\<lparr>sampling := 0\<rparr>)" "\<not> over_max_dev pair_converged"
    by (simp_all add: over_max_dev_def pair_converged_def pair_default_def pair_zero_def)
  have s: "\<not> 0 <s sampling pair_converged" by (simp add: pair_converged_def)
  have a: "1 \<le> \<bar>avg (diff_ab (pair_converged\<lparr>sampling := 0\<rparr>))\<bar>"
    by (simp add: pair_converged_def)
  have l: "loop_a pair_converged [] = Inr (False, 0, pair_converged, [])" by simp
  note c1 = converged_once [of "pair_converged\<lparr>sampling := 0\<rparr>" "1/2" "[]" False 0
      "pair_converged\<lparr>sampling := 0\<rparr>" "[]" env_iter_zero, THEN conjunct1, rule_format]
  note c2 = converged_once [of pair_converged "1/2" "[]" False 0 pair_converged "[]" env_iter_zero,
      THEN conjunct2, THEN conjunct2, THEN conjunct2, THEN conjunct1, rule_format]
  have 1: "sampling (fst (fzsync_pair_update (pair_converged\<lparr>sampling := 0\<rparr>) (1/2))) = - 1
      \<and> stats_of (fst (fzsync_pair_update (pair_converged\<lparr>sampling := 0\<rparr>) (1/2)))
           = stats_of (pair_converged\<lparr>sampling := 0\<rparr>)
      \<and> snd (fzsync_pair_update (pair_converged\<lparr>sampling := 0\<rparr>) (1/2))
           = [Reached_deviation_ratios, Delay_range_is, Pair_info]"
    using c1 o(1) a by simp
  have 2: "stats_of (fst (race_body_a pair_converged env_iter_zero)) = stats_of pair_converged"
    using c2 s o(2) by blast
  show ?thesis using 1 2 o(1) l by simp
qed

subsection \<open>The iteration budget\<close>

lemma loop_counts:
  assumes "budget_lasts p es"
    and "sint (exec_loop p) \<le> sint (exec_loops p)"
    and "exec_loops p \<noteq> INT_MAX"
    and "nat (sint (exec_loops p) - sint (exec_loop p)) < length es"
  shows "loop_outcome (loop_a p es) = Some (True, nat (sint (exec_loops p) - sint (exec_loop p)))"
  using assms
proof (induction es arbitrary: p)
  case Nil
  then show ?case by simp
next
  case (Cons e es)
  from Cons.prems(1) obtain t where t: "fzsync_timeout_remaining p (clock_run e) = Inr t" "t \<noteq> 0"
    and bl: "budget_lasts p es"
    by (auto simp: budget_lasts_def split: sum.splits)
  from run_a_total [OF t(1)] obtain go p1 out1 where
    r: "fzsync_run_a p (clock_run e) (rv_run e) (join_run e) = Inr (go, p1, out1)" by blast
  note f = run_a_result [OF r]
  have lt: "sint (exec_loops p) < 2147483647"
  proof -
    have "sint (exec_loops p) \<noteq> sint INT_MAX" using Cons.prems(3) sint_inj [of "exec_loops p" INT_MAX] by blast
    moreover have "sint (exec_loops p) \<le> sint INT_MAX" using sle_INT_MAX by (simp only: word_sle_eq)
    ultimately show ?thesis by simp
  qed
  have inc: "sint (exec_loop p + 1) = sint (exec_loop p) + 1"
    using lt Cons.prems(2) by (intro sint_succ) simp
  have go0: "go = 0 \<longleftrightarrow> sint (exec_loops p) = sint (exec_loop p)"
    using f t Cons.prems(2) inc by (auto simp: word_sless_alt)
  show ?case
  proof (cases "go = 0")
    case True
    then show ?thesis using r go0 by (simp add: loop_outcome_def)
  next
    case False
    let ?q = "fst (race_body_a p1 e)"
    have q: "exec_loop ?q = exec_loop p + 1" "exec_loops ?q = exec_loops p"
      "exec_time ?q = exec_time p" "exec_time_start ?q = exec_time_start p"
      using f by simp_all
    have 1: "budget_lasts ?q es" using bl budget_lasts_cong [OF q(3,4)] by simp
    have 2: "sint (exec_loop ?q) \<le> sint (exec_loops ?q)"
      using q inc go0 False Cons.prems(2) by simp
    have 3: "exec_loops ?q \<noteq> INT_MAX" using q Cons.prems(3) by simp
    have 4: "nat (sint (exec_loops ?q) - sint (exec_loop ?q)) < length es"
      using q inc Cons.prems(4) go0 False Cons.prems(2) by simp
    have n: "nat (sint (exec_loops p) - sint (exec_loop p))
           = Suc (nat (sint (exec_loops ?q) - sint (exec_loop ?q)))"
      using q inc go0 False Cons.prems(2) by simp
    from Cons.IH [OF 1 2 3 4] show ?thesis
      using r False n by (auto simp: loop_outcome_def Let_def split: sum.splits)
  qed
qed

lemma loop_int_max:
  assumes "budget_lasts p es" and "exec_loops p = INT_MAX"
  shows "loop_outcome (loop_a p es) = Some (False, length es)"
  using assms
proof (induction es arbitrary: p)
  case Nil
  then show ?case by (simp add: loop_outcome_def)
next
  case (Cons e es)
  from Cons.prems(1) obtain t where t: "fzsync_timeout_remaining p (clock_run e) = Inr t" "t \<noteq> 0"
    and bl: "budget_lasts p es"
    by (auto simp: budget_lasts_def split: sum.splits)
  from run_a_total [OF t(1)] obtain go p1 out1 where
    r: "fzsync_run_a p (clock_run e) (rv_run e) (join_run e) = Inr (go, p1, out1)" by blast
  note f = run_a_result [OF r]
  have go: "go \<noteq> 0" using f t Cons.prems(2) by simp
  let ?q = "fst (race_body_a p1 e)"
  have q: "exec_loops ?q = INT_MAX" "exec_time ?q = exec_time p" "exec_time_start ?q = exec_time_start p"
    using f Cons.prems(2) by simp_all
  have 1: "budget_lasts ?q es" using bl budget_lasts_cong [OF q(2,3)] by simp
  from Cons.IH [OF 1 q(1)] show ?case
    using r go by (auto simp: loop_outcome_def Let_def split: sum.splits)
qed

text \<open>
  With an iteration budget below \<open>INT_MAX\<close>, a time budget that lasts and enough
  environments for the calls, the loop started with \<open>exec_loop = 0\<close> runs exactly
  \<open>exec_loops\<close> iterations and then \<open>fzsync_run_a\<close> returns 0.
\<close>

lemma run_a_iteration_budget:
  assumes "exec_loop p = 0" and "0 \<le>s exec_loops p" and "exec_loops p \<noteq> INT_MAX"
    and "budget_lasts p es" and "nat (sint (exec_loops p)) < length es"
  shows "loop_outcome (loop_a p es) = Some (True, nat (sint (exec_loops p)))"
proof -
  have nn: "0 \<le> sint (exec_loops p)" using assms(2) by (simp add: word_sle_eq)
  have "loop_outcome (loop_a p es)
      = Some (True, nat (sint (exec_loops p) - sint (exec_loop p)))"
    using assms nn by (intro loop_counts) simp_all
  then show ?thesis using assms(1) by simp
qed

lemma run_a_twenty_iterations:
  "loop_outcome (loop_a (pair_default\<lparr>exec_loops := 20\<rparr>) (replicate 21 env_iter_zero))
     = Some (True, 20)"
proof -
  have t: "fzsync_timeout_remaining (pair_default\<lparr>exec_loops := 20\<rparr>) (clock_run env_iter_zero)
      = Inr 150"
    by (simp add: fzsync_timeout_remaining_def pair_default_def pair_zero_def env_iter_zero_def
        c_trunc_def)
  have b: "budget_lasts (pair_default\<lparr>exec_loops := 20\<rparr>) (replicate 21 env_iter_zero)"
    unfolding budget_lasts_def list_all_iff using t by simp
  have "loop_outcome (loop_a (pair_default\<lparr>exec_loops := 20\<rparr>) (replicate 21 env_iter_zero))
     = Some (True, nat (sint (exec_loops (pair_default\<lparr>exec_loops := 20\<rparr>))))"
    using b by (intro run_a_iteration_budget)
      (simp_all add: pair_default_def pair_zero_def INT_MAX_def word_sle_eq)
  then show ?thesis by simp
qed

lemma loop_int_max_replicate:
  assumes "exec_loops p = INT_MAX"
    and "fzsync_timeout_remaining p (clock_run e) = Inr t" and "t \<noteq> 0"
  shows "loop_outcome (loop_a p (replicate n e)) = Some (False, n)"
proof -
  have "budget_lasts p (replicate n e)"
    unfolding budget_lasts_def list_all_iff using assms(2,3) by simp
  then have "loop_outcome (loop_a p (replicate n e)) = Some (False, length (replicate n e))"
    using assms(1) by (rule loop_int_max)
  then show ?thesis by (simp only: length_replicate)
qed

text \<open>
  C7. \<open>fzsync_pair_init\<close> accepts the iteration budget \<open>INT_MAX\<close>, and with it
  \<open>++exec_loop > exec_loops\<close> is never true: after a reset the loop, run for
  \<open>2^31 = INT_MAX + 1\<close> calls of \<open>fzsync_run_a\<close> with a time budget that lasts, has not
  stopped and has completed \<open>2^31\<close> iterations.
\<close>

theorem run_a_int_max_never_stops:
  "fzsync_pair_init (pair_default\<lparr>exec_loops := INT_MAX\<rparr>)
     = Inr (pair_default\<lparr>exec_loops := INT_MAX\<rparr>)
   \<and> loop_outcome
       (loop_a (snd (fzsync_pair_reset (pair_default\<lparr>exec_loops := INT_MAX\<rparr>) False env_zero))
          (replicate (2 ^ 31) env_iter_zero))
     = Some (False, 2 ^ 31)"
proof -
  let ?p = "snd (fzsync_pair_reset (pair_default\<lparr>exec_loops := INT_MAX\<rparr>) False env_zero)"
  have d: "\<forall>prm. \<not> out_of_range (pair_default\<lparr>exec_loops := INT_MAX\<rparr>) prm"
    unfolding all_param
    by (simp add: pair_default_def pair_zero_def FLT_MIN_def FLT_MAX_def INT_MAX_def word_sle_eq)
  have i: "fzsync_pair_init (pair_default\<lparr>exec_loops := INT_MAX\<rparr>)
     = Inr (pair_default\<lparr>exec_loops := INT_MAX\<rparr>)"
    using init_ok [OF d] by (simp add: pair_default_def pair_zero_def INT_MAX_def)
  have t: "fzsync_timeout_remaining ?p (clock_run env_iter_zero) = Inr 150"
    unfolding reset_fields
    by (simp add: fzsync_timeout_remaining_def pair_default_def pair_zero_def env_iter_zero_def
        env_zero_def c_trunc_def)
  have m: "exec_loops ?p = INT_MAX" unfolding reset_fields by simp
  have z: "(150::int) \<noteq> 0" by simp
  show ?thesis
    by (rule conjI [OF i loop_int_max_replicate [OF m t z]])
qed

subsection \<open>The rendezvous\<close>

lemma step_cases:
  "fzsync_pair_wait_step our other Outside
     = (other + 1, if sint (other + 1) = 2147483647 then Reset_spin else Else_spin)"
  "fzsync_pair_wait_step our other Reset_spin = (other, if 0 < sint our then Reset_spin2 else Reset_store)"
  "fzsync_pair_wait_step our other Reset_spin2
     = (other, if sint our < 2147483647 then Reset_spin else Reset_store)"
  "fzsync_pair_wait_step our other Reset_store = (0, Reset_settle)"
  "fzsync_pair_wait_step our other Reset_settle = (other, if 1 < sint our then Reset_settle else Outside)"
  "fzsync_pair_wait_step our other Else_spin = (other, if sint our < sint other then Else_spin else Outside)"
  by (simp_all add: fzsync_pair_wait_step_def Let_def word_sless_alt sint_eq_iff [of _ INT_MAX])

lemma inv_step_a: "barrier_inv s \<Longrightarrow> barrier_inv (step_a s)"
  unfolding barrier_inv_def step_a_def Let_def
  by (cases "pc_a s"; cases "pc_b s";
      simp add: step_cases normal_ok_def sint_succ split: if_splits)

lemma inv_step_b: "barrier_inv s \<Longrightarrow> barrier_inv (step_b s)"
  unfolding barrier_inv_def step_b_def Let_def
  by (cases "pc_a s"; cases "pc_b s";
      simp add: step_cases normal_ok_def sint_succ split: if_splits)

lemma inv_init: "barrier_inv barrier_init"
  by (simp add: barrier_inv_def barrier_init_def normal_ok_def)

lemma reachable_inv: "reachable s \<Longrightarrow> barrier_inv s"
  by (induction rule: reachable.induct) (simp_all add: inv_init inv_step_a inv_step_b)

lemma spin_cases:
  "spinning our other Outside = False"
  "spinning our other Reset_spin = (0 < sint our \<and> sint our < 2147483647)"
  "spinning our other Reset_spin2 = (0 < sint our \<and> sint our < 2147483647)"
  "spinning our other Reset_store = False"
  "spinning our other Reset_settle = (1 < sint our)"
  "spinning our other Else_spin = (sint our < sint other)"
  by (simp_all add: spinning_def word_sless_alt)

lemma no_deadlock: "barrier_inv s \<Longrightarrow> \<not> (waiting_a s \<and> waiting_b s)"
  unfolding barrier_inv_def waiting_a_def waiting_b_def Let_def
  by (cases "pc_a s"; cases "pc_b s"; simp add: spin_cases normal_ok_def split: if_splits)

lemma rendezvous: "barrier_inv s \<Longrightarrow>
    done_a s \<le> begun_b s \<and> done_b s \<le> begun_a s
    \<and> begun_a s \<le> Suc (begun_b s) \<and> begun_b s \<le> Suc (begun_a s)
    \<and> done_a s \<le> begun_a s \<and> begun_a s \<le> Suc (done_a s)
    \<and> done_b s \<le> begun_b s \<and> begun_b s \<le> Suc (done_b s)"
  unfolding barrier_inv_def Let_def
  by (cases "pc_a s"; cases "pc_b s"; simp add: normal_ok_def split: if_splits)

lemma behind_waits: "barrier_inv s \<Longrightarrow> \<not> reset_window s \<Longrightarrow>
    (waiting_a s \<longleftrightarrow> cntr_a s <s cntr_b s) \<and> (waiting_b s \<longleftrightarrow> cntr_b s <s cntr_a s)"
  unfolding barrier_inv_def waiting_a_def waiting_b_def reset_window_def Let_def
  by (cases "pc_a s"; cases "pc_b s";
      simp add: spin_cases normal_ok_def word_sless_alt split: if_splits)

lemma in_window: "barrier_inv s \<Longrightarrow> reset_window s \<Longrightarrow>
    (pc_a s = Reset_settle \<longrightarrow> cntr_a s = INT_MAX \<and> cntr_b s = 0 \<and> waiting_a s \<and> \<not> waiting_b s)
    \<and> (pc_b s = Reset_settle \<longrightarrow> cntr_b s = INT_MAX \<and> cntr_a s = 0 \<and> waiting_b s \<and> \<not> waiting_a s)"
  unfolding barrier_inv_def waiting_a_def waiting_b_def reset_window_def Let_def
  by (cases "pc_a s"; cases "pc_b s";
      simp add: spin_cases normal_ok_def sint_eq_iff [of _ INT_MAX] sint_eq_iff [of _ 0] split: if_splits)

text \<open>
  A step of a thread that is not spinning returns from the call or lowers the rank; a
  step of a spinning thread changes nothing that matters.
\<close>

lemma active_a: "barrier_inv s \<Longrightarrow> \<not> waiting_a s \<Longrightarrow>
    done_b (step_a s) = done_b s \<and>
    (done_a (step_a s) = Suc (done_a s) \<or> done_a (step_a s) = done_a s \<and> rank (step_a s) < rank s)"
  unfolding barrier_inv_def waiting_a_def step_a_def rank_def Let_def
  by (cases "pc_a s"; cases "pc_b s";
      simp add: step_cases spin_cases normal_ok_def sint_succ split: if_splits)

lemma active_b: "barrier_inv s \<Longrightarrow> \<not> waiting_b s \<Longrightarrow>
    done_a (step_b s) = done_a s \<and>
    (done_b (step_b s) = Suc (done_b s) \<or> done_b (step_b s) = done_b s \<and> rank (step_b s) < rank s)"
  unfolding barrier_inv_def waiting_b_def step_b_def rank_def Let_def
  by (cases "pc_a s"; cases "pc_b s";
      simp add: step_cases spin_cases normal_ok_def sint_succ split: if_splits)

lemma idle_a: "barrier_inv s \<Longrightarrow> waiting_a s \<Longrightarrow>
    done_a (step_a s) = done_a s \<and> done_b (step_a s) = done_b s \<and> rank (step_a s) = rank s
    \<and> waiting_b (step_a s) = waiting_b s"
  unfolding barrier_inv_def waiting_a_def waiting_b_def step_a_def rank_def Let_def
  by (cases "pc_a s"; cases "pc_b s";
      simp add: step_cases spin_cases normal_ok_def sint_succ split: if_splits)

lemma idle_b: "barrier_inv s \<Longrightarrow> waiting_b s \<Longrightarrow>
    done_a (step_b s) = done_a s \<and> done_b (step_b s) = done_b s \<and> rank (step_b s) = rank s
    \<and> waiting_a (step_b s) = waiting_a s"
  unfolding barrier_inv_def waiting_a_def waiting_b_def step_b_def rank_def Let_def
  by (cases "pc_a s"; cases "pc_b s";
      simp add: step_cases spin_cases normal_ok_def sint_succ split: if_splits)

lemma fair_shift: "fair sched \<Longrightarrow> fair (shift sched)"
  unfolding fair_def shift_def
proof (intro allI conjI)
  fix i
  assume f: "\<forall>i. (\<exists>j\<ge>i. sched j) \<and> (\<exists>j\<ge>i. \<not> sched j)"
  from f obtain j where j: "Suc i \<le> j" "sched j" by blast
  then obtain k where "j = Suc k" by (cases j) simp_all
  with j show "\<exists>j\<ge>i. sched (Suc j)" by auto
  from f obtain j' where j': "Suc i \<le> j'" "\<not> sched j'" by blast
  then obtain k' where "j' = Suc k'" by (cases j') simp_all
  with j' show "\<exists>j\<ge>i. \<not> sched (Suc j)" by auto
qed

lemma exec_inv: "barrier_inv s \<Longrightarrow> barrier_inv (exec sched n s)"
  by (induction n arbitrary: sched s) (simp_all add: inv_step_a inv_step_b)

lemma exec_reachable: "reachable s \<Longrightarrow> reachable (exec sched n s)"
  by (induction n arbitrary: sched s) (simp_all add: reach_a reach_b)

lemma step_mono:
  "done_a s \<le> done_a (step_a s)" "done_b s \<le> done_b (step_a s)"
  "done_a s \<le> done_a (step_b s)" "done_b s \<le> done_b (step_b s)"
  by (simp_all add: step_a_def step_b_def Let_def)

lemma exec_mono:
  "done_a s \<le> done_a (exec sched n s) \<and> done_b s \<le> done_b (exec sched n s)"
proof (induction n arbitrary: sched s)
  case 0
  show ?case by simp
next
  case (Suc n)
  let ?t = "if sched 0 then step_a s else step_b s"
  have "done_a s \<le> done_a ?t" "done_b s \<le> done_b ?t" by (simp_all add: step_mono)
  moreover have "done_a ?t \<le> done_a (exec (shift sched) n ?t) \<and> done_b ?t \<le> done_b (exec (shift sched) n ?t)"
    by (rule Suc.IH)
  ultimately show ?case by simp
qed

lemma total_mono: "total s \<le> total (exec sched n s)"
  using exec_mono [of s sched n] by (simp add: total_def)

text \<open>
  Under a fair schedule one more call returns: by induction on the rank, and for a thread
  that is not spinning by induction on the step at which it is scheduled next.
\<close>

lemma turn_a:
  assumes ih: "\<And>t sch. barrier_inv t \<Longrightarrow> fair sch \<Longrightarrow> rank t < r \<Longrightarrow> \<exists>n. total t < total (exec sch n t)"
  shows "barrier_inv s \<Longrightarrow> fair sched \<Longrightarrow> rank s = r \<Longrightarrow> \<not> waiting_a s \<Longrightarrow> sched j
     \<Longrightarrow> \<exists>n. total s < total (exec sched n s)"
proof (induction j arbitrary: s sched)
  case 0
  from active_a [OF "0.prems"(1,4)] consider
    (ret) "total (step_a s) = Suc (total s)" | (dec) "total (step_a s) = total s" "rank (step_a s) < r"
    using "0.prems"(3) by (auto simp: total_def)
  then show ?case
  proof cases
    case ret
    then have "total s < total (exec sched (Suc 0) s)" using "0.prems"(5) by simp
    then show ?thesis by blast
  next
    case dec
    from ih [OF inv_step_a [OF "0.prems"(1)] fair_shift [OF "0.prems"(2)] dec(2)]
    obtain n where "total (step_a s) < total (exec (shift sched) n (step_a s))" by blast
    then have "total s < total (exec sched (Suc n) s)" using dec(1) "0.prems"(5) by simp
    then show ?thesis by blast
  qed
next
  case (Suc j)
  show ?case
  proof (cases "sched 0")
    case True
    from active_a [OF Suc.prems(1,4)] consider
      (ret) "total (step_a s) = Suc (total s)" | (dec) "total (step_a s) = total s" "rank (step_a s) < r"
      using Suc.prems(3) by (auto simp: total_def)
    then show ?thesis
    proof cases
      case ret
      then have "total s < total (exec sched (Suc 0) s)" using True by simp
      then show ?thesis by blast
    next
      case dec
      from ih [OF inv_step_a [OF Suc.prems(1)] fair_shift [OF Suc.prems(2)] dec(2)]
      obtain n where "total (step_a s) < total (exec (shift sched) n (step_a s))" by blast
      then have "total s < total (exec sched (Suc n) s)" using dec(1) True by simp
      then show ?thesis by blast
    qed
  next
    case False
    show ?thesis
    proof (cases "waiting_b s")
      case True
      note i = idle_b [OF Suc.prems(1) True]
      have "\<exists>n. total (step_b s) < total (exec (shift sched) n (step_b s))"
      proof (rule Suc.IH)
        show "barrier_inv (step_b s)" using Suc.prems(1) by (rule inv_step_b)
        show "fair (shift sched)" using Suc.prems(2) by (rule fair_shift)
        show "rank (step_b s) = r" using i Suc.prems(3) by simp
        show "\<not> waiting_a (step_b s)" using i Suc.prems(4) by simp
        show "shift sched j" using Suc.prems(5) by (simp add: shift_def)
      qed
      then obtain n where "total (step_b s) < total (exec (shift sched) n (step_b s))" by blast
      moreover have "total (step_b s) = total s" using i by (simp add: total_def)
      ultimately have "total s < total (exec sched (Suc n) s)" using False by simp
      then show ?thesis by blast
    next
      case nw: False
      from active_b [OF Suc.prems(1) nw] consider
        (ret) "total (step_b s) = Suc (total s)" | (dec) "total (step_b s) = total s" "rank (step_b s) < r"
        using Suc.prems(3) by (auto simp: total_def)
      then show ?thesis
      proof cases
        case ret
        then have "total s < total (exec sched (Suc 0) s)" using False by simp
        then show ?thesis by blast
      next
        case dec
        from ih [OF inv_step_b [OF Suc.prems(1)] fair_shift [OF Suc.prems(2)] dec(2)]
        obtain n where "total (step_b s) < total (exec (shift sched) n (step_b s))" by blast
        then have "total s < total (exec sched (Suc n) s)" using dec(1) False by simp
        then show ?thesis by blast
      qed
    qed
  qed
qed

lemma turn_b:
  assumes ih: "\<And>t sch. barrier_inv t \<Longrightarrow> fair sch \<Longrightarrow> rank t < r \<Longrightarrow> \<exists>n. total t < total (exec sch n t)"
  shows "barrier_inv s \<Longrightarrow> fair sched \<Longrightarrow> rank s = r \<Longrightarrow> \<not> waiting_b s \<Longrightarrow> \<not> sched j
     \<Longrightarrow> \<exists>n. total s < total (exec sched n s)"
proof (induction j arbitrary: s sched)
  case 0
  from active_b [OF "0.prems"(1,4)] consider
    (ret) "total (step_b s) = Suc (total s)" | (dec) "total (step_b s) = total s" "rank (step_b s) < r"
    using "0.prems"(3) by (auto simp: total_def)
  then show ?case
  proof cases
    case ret
    then have "total s < total (exec sched (Suc 0) s)" using "0.prems"(5) by simp
    then show ?thesis by blast
  next
    case dec
    from ih [OF inv_step_b [OF "0.prems"(1)] fair_shift [OF "0.prems"(2)] dec(2)]
    obtain n where "total (step_b s) < total (exec (shift sched) n (step_b s))" by blast
    then have "total s < total (exec sched (Suc n) s)" using dec(1) "0.prems"(5) by simp
    then show ?thesis by blast
  qed
next
  case (Suc j)
  show ?case
  proof (cases "sched 0")
    case False
    from active_b [OF Suc.prems(1,4)] consider
      (ret) "total (step_b s) = Suc (total s)" | (dec) "total (step_b s) = total s" "rank (step_b s) < r"
      using Suc.prems(3) by (auto simp: total_def)
    then show ?thesis
    proof cases
      case ret
      then have "total s < total (exec sched (Suc 0) s)" using False by simp
      then show ?thesis by blast
    next
      case dec
      from ih [OF inv_step_b [OF Suc.prems(1)] fair_shift [OF Suc.prems(2)] dec(2)]
      obtain n where "total (step_b s) < total (exec (shift sched) n (step_b s))" by blast
      then have "total s < total (exec sched (Suc n) s)" using dec(1) False by simp
      then show ?thesis by blast
    qed
  next
    case True
    show ?thesis
    proof (cases "waiting_a s")
      case wa: True
      note i = idle_a [OF Suc.prems(1) wa]
      have "\<exists>n. total (step_a s) < total (exec (shift sched) n (step_a s))"
      proof (rule Suc.IH)
        show "barrier_inv (step_a s)" using Suc.prems(1) by (rule inv_step_a)
        show "fair (shift sched)" using Suc.prems(2) by (rule fair_shift)
        show "rank (step_a s) = r" using i Suc.prems(3) by simp
        show "\<not> waiting_b (step_a s)" using i Suc.prems(4) by simp
        show "\<not> shift sched j" using Suc.prems(5) by (simp add: shift_def)
      qed
      then obtain n where "total (step_a s) < total (exec (shift sched) n (step_a s))" by blast
      moreover have "total (step_a s) = total s" using i by (simp add: total_def)
      ultimately have "total s < total (exec sched (Suc n) s)" using True by simp
      then show ?thesis by blast
    next
      case nw: False
      from active_a [OF Suc.prems(1) nw] consider
        (ret) "total (step_a s) = Suc (total s)" | (dec) "total (step_a s) = total s" "rank (step_a s) < r"
        using Suc.prems(3) by (auto simp: total_def)
      then show ?thesis
      proof cases
        case ret
        then have "total s < total (exec sched (Suc 0) s)" using True by simp
        then show ?thesis by blast
      next
        case dec
        from ih [OF inv_step_a [OF Suc.prems(1)] fair_shift [OF Suc.prems(2)] dec(2)]
        obtain n where "total (step_a s) < total (exec (shift sched) n (step_a s))" by blast
        then have "total s < total (exec sched (Suc n) s)" using dec(1) True by simp
        then show ?thesis by blast
      qed
    qed
  qed
qed

lemma some_call_returns:
  "barrier_inv s \<Longrightarrow> fair sched \<Longrightarrow> \<exists>n. total s < total (exec sched n s)"
proof (induction "rank s" arbitrary: s sched rule: less_induct)
  case less
  have ih: "\<And>t sch. barrier_inv t \<Longrightarrow> fair sch \<Longrightarrow> rank t < rank s \<Longrightarrow> \<exists>n. total t < total (exec sch n t)"
    using less.hyps by blast
  show ?case
  proof (cases "waiting_a s")
    case False
    from less.prems(2) obtain j where "sched j" unfolding fair_def by blast
    from turn_a [OF ih less.prems(1,2) refl False this] show ?thesis by blast
  next
    case True
    then have nb: "\<not> waiting_b s" using no_deadlock [OF less.prems(1)] by blast
    from less.prems(2) obtain j where "\<not> sched j" unfolding fair_def by blast
    from turn_b [OF ih less.prems(1,2) refl nb this] show ?thesis by blast
  qed
qed

lemma exec_add: "exec sched (n + m) s = exec ((shift ^^ n) sched) m (exec sched n s)"
proof (induction n arbitrary: sched s)
  case 0
  show ?case by simp
next
  case (Suc n)
  show ?case by (simp add: Suc.IH funpow_swap1)
qed

lemma fair_shifts: "fair sched \<Longrightarrow> fair ((shift ^^ n) sched)"
  by (induction n) (simp_all add: fair_shift)

lemma many_calls_return:
  assumes "barrier_inv s" and "fair sched"
  shows "\<exists>n. total s + k \<le> total (exec sched n s)"
proof (induction k)
  case 0
  have "total s + 0 \<le> total (exec sched 0 s)" by simp
  then show ?case by blast
next
  case (Suc k)
  then obtain n where n: "total s + k \<le> total (exec sched n s)" by blast
  from some_call_returns [OF exec_inv [OF assms(1), of sched n] fair_shifts [OF assms(2), of n]]
  obtain m where "total (exec sched n s) < total (exec ((shift ^^ n) sched) m (exec sched n s))"
    by blast
  then have "total s + Suc k \<le> total (exec sched (n + m) s)"
    using n by (simp add: exec_add)
  then show ?case by blast
qed

lemma both_return:
  assumes "barrier_inv s" and "fair sched"
  shows "\<exists>n. done_a s < done_a (exec sched n s) \<and> done_b s < done_b (exec sched n s)"
proof -
  from many_calls_return [OF assms, of 3] obtain n where
    n: "total s + 3 \<le> total (exec sched n s)" by blast
  note r0 = rendezvous [OF assms(1)]
  note r1 = rendezvous [OF exec_inv [OF assms(1)], of sched n]
  note m = exec_mono [of s sched n]
  have "done_a s < done_a (exec sched n s) \<and> done_b s < done_b (exec sched n s)"
    using n r0 r1 m unfolding total_def by linarith
  then show ?thesis by blast
qed

lemma fair_alternate: "fair alternate"
  unfolding fair_def alternate_def
proof (intro allI conjI)
  fix i :: nat
  have "i \<le> 2 * i \<and> even (2 * i)" by simp
  then show "\<exists>j\<ge>i. even j" by blast
  have "i \<le> Suc (2 * i) \<and> \<not> even (Suc (2 * i))" by simp
  then show "\<exists>j\<ge>i. \<not> even j" by blast
qed

text \<open>The state \<open>barrier_torn\<close> is reached after \<open>2147483646\<close> rendezvous in step.\<close>

lemma round_trip:
  assumes "Suc k < 2147483647"
  shows "step_b (step_a (step_b (step_a (in_step k)))) = in_step (Suc k)"
proof -
  have s: "sint (of_nat k :: c_int) = int k"
    using assms sint_of_nat_small [of k] by simp
  have "sint (of_nat k + 1 :: c_int) = sint (of_nat k :: c_int) + 1"
    using s assms by (intro sint_succ) simp
  then have t: "sint (of_nat k + 1 :: c_int) = int k + 1" using s by simp
  show ?thesis
    using s t assms by (simp add: in_step_def step_a_def step_b_def step_cases Let_def)
qed

lemma reachable_in_step: "k < 2147483647 \<Longrightarrow> reachable (in_step k)"
proof (induction k)
  case 0
  have "in_step 0 = barrier_init" by (simp add: in_step_def barrier_init_def)
  then show ?case by (simp add: reach_init)
next
  case (Suc k)
  then have "reachable (in_step k)" by simp
  then have "reachable (step_b (step_a (step_b (step_a (in_step k)))))"
    by (intro reach_a reach_b)
  then show ?case using round_trip [OF Suc.prems] by simp
qed

lemma torn_path:
  "step_a (step_a (step_a (step_b (step_a (in_step 2147483646))))) = barrier_torn"
proof -
  have e: "(of_nat 2147483646 :: c_int) = 2147483646" by simp
  show ?thesis
    unfolding in_step_def e
    by (simp add: barrier_torn_def step_a_def step_b_def step_cases Let_def INT_MAX_def)
qed

lemma reachable_torn: "reachable barrier_torn"
proof -
  have "reachable (in_step 2147483646)" by (rule reachable_in_step) simp
  then have "reachable (step_a (step_a (step_a (step_b (step_a (in_step 2147483646))))))"
    by (intro reach_a reach_b)
  then show ?thesis by (simp only: torn_path)
qed

text \<open>
  In \<open>barrier_torn\<close> thread A spins in the second loop with its own counter at
  \<open>INT_MAX\<close>, while the counter of thread B is 0 and thread B does not spin.
\<close>

theorem barrier_torn_counterexample:
  "reachable barrier_torn \<and> waiting_a barrier_torn \<and> \<not> waiting_b barrier_torn
   \<and> cntr_b barrier_torn <s cntr_a barrier_torn"
  using reachable_torn
  by (simp add: barrier_torn_def waiting_a_def waiting_b_def spin_cases word_sless_alt)

text \<open>
  C1, as the code has it. In every state reachable by interleaving the calls of the two
  threads, across the wraparound at \<open>INT_MAX\<close>: the two threads never spin both (no
  deadlock); a call has returned only if the other thread has begun the matching call;
  under every fair schedule both threads return from a further call; and a thread
  spins exactly if its own counter is below the other one, except in the reset window,
  where the thread that has stored 0 spins in the second loop with its own counter at
  \<open>INT_MAX\<close> and the other counter at 0, and the other thread does not spin.
\<close>

theorem barrier_rendezvous:
  assumes "reachable s"
  shows "\<not> (waiting_a s \<and> waiting_b s)
     \<and> done_a s \<le> begun_b s \<and> done_b s \<le> begun_a s
     \<and> begun_a s \<le> Suc (done_a s) \<and> begun_b s \<le> Suc (done_b s)
     \<and> (\<forall>sched. fair sched \<longrightarrow>
          (\<exists>n. done_a s < done_a (exec sched n s) \<and> done_b s < done_b (exec sched n s)))
     \<and> (\<not> reset_window s \<longrightarrow>
          (waiting_a s \<longleftrightarrow> cntr_a s <s cntr_b s) \<and> (waiting_b s \<longleftrightarrow> cntr_b s <s cntr_a s))
     \<and> (reset_window s \<and> pc_a s = Reset_settle \<longrightarrow>
          cntr_a s = INT_MAX \<and> cntr_b s = 0 \<and> waiting_a s \<and> \<not> waiting_b s)
     \<and> (reset_window s \<and> pc_b s = Reset_settle \<longrightarrow>
          cntr_b s = INT_MAX \<and> cntr_a s = 0 \<and> waiting_b s \<and> \<not> waiting_a s)"
proof -
  have i: "barrier_inv s" using assms by (rule reachable_inv)
  show ?thesis
    using no_deadlock [OF i] rendezvous [OF i] both_return [OF i] behind_waits [OF i] in_window [OF i]
    by blast
qed

theorem barrier_rendezvous_witness:
  "reachable barrier_init \<and> fair alternate
   \<and> \<not> (waiting_a barrier_init \<and> waiting_b barrier_init)
   \<and> (\<exists>n. done_a barrier_init < done_a (exec alternate n barrier_init)
          \<and> done_b barrier_init < done_b (exec alternate n barrier_init))
   \<and> reachable barrier_torn \<and> reset_window barrier_torn \<and> pc_a barrier_torn = Reset_settle
   \<and> waiting_a barrier_torn \<and> \<not> waiting_b barrier_torn"
proof -
  have w: "reset_window barrier_torn" "pc_a barrier_torn = Reset_settle"
    by (simp_all add: reset_window_def barrier_torn_def)
  show ?thesis
    using barrier_rendezvous [OF reach_init] barrier_rendezvous [OF reachable_torn]
      fair_alternate reach_init reachable_torn w
    by blast
qed

end
